theory Spec2Isabelle
  imports Main "HOL-Library.Sublist" "HOL-Library.Product_Lexorder"
begin

section \<open>Python strings\<close>

text \<open>
  The router of \<^verbatim>\<open>rag_engine.py\<close> works on Python \<^verbatim>\<open>str\<close> values. A string is
  modelled as a list of characters, each character standing for the code point of the
  same number (code points below 256). The character classes below are the ones
  CPython uses on those code points for \<^verbatim>\<open>str.isspace\<close>, \<^verbatim>\<open>str.isdecimal\<close>,
  \<^verbatim>\<open>str.isdigit\<close>, \<^verbatim>\<open>str.isalnum\<close> and \<^verbatim>\<open>str.lower\<close>; the regular expression
  classes \<^verbatim>\<open>\s\<close>, \<^verbatim>\<open>\d\<close> and \<^verbatim>\<open>\w\<close> of a \<^verbatim>\<open>str\<close> pattern are the first, the
  second and the fourth (with the underscore).
\<close>

definition code_point :: "char \<Rightarrow> nat" where
  "code_point c = of_char c"

definition isspace :: "char \<Rightarrow> bool" where
  "isspace c =
     (let n = code_point c
      in (9 \<le> n \<and> n \<le> 13) \<or> (28 \<le> n \<and> n \<le> 32) \<or> n = 133 \<or> n = 160)"

definition isdecimal :: "char \<Rightarrow> bool" where
  "isdecimal c = (let n = code_point c in 48 \<le> n \<and> n \<le> 57)"

text \<open>
  \<^verbatim>\<open>str.isdigit\<close> also accepts the superscript digits (code points 178, 179 and
  185), which \<^verbatim>\<open>int\<close> does not read.
\<close>

definition isdigit_char :: "char \<Rightarrow> bool" where
  "isdigit_char c = (let n = code_point c in isdecimal c \<or> n = 178 \<or> n = 179 \<or> n = 185)"

definition isdigit :: "string \<Rightarrow> bool" where
  "isdigit w = (w \<noteq> [] \<and> list_all isdigit_char w)"

definition isalpha_char :: "char \<Rightarrow> bool" where
  "isalpha_char c =
     (let n = code_point c
      in (65 \<le> n \<and> n \<le> 90) \<or> (97 \<le> n \<and> n \<le> 122) \<or> n = 170 \<or> n = 181 \<or> n = 186
         \<or> (192 \<le> n \<and> n \<le> 214) \<or> (216 \<le> n \<and> n \<le> 246) \<or> 248 \<le> n)"

text \<open>The class \<^verbatim>\<open>\w\<close>: alphanumeric (letters, digits, the fractions 188 to 190) or underscore.\<close>

definition is_word_char :: "char \<Rightarrow> bool" where
  "is_word_char c =
     (let n = code_point c
      in isalpha_char c \<or> isdigit_char c \<or> (188 \<le> n \<and> n \<le> 190) \<or> n = 95)"

definition lower_char :: "char \<Rightarrow> char" where
  "lower_char c =
     (let n = code_point c
      in if (65 \<le> n \<and> n \<le> 90) \<or> (192 \<le> n \<and> n \<le> 222 \<and> n \<noteq> 215)
         then char_of (n + 32) else c)"

definition lower :: "string \<Rightarrow> string" where
  "lower s = map lower_char s"

definition strip :: "string \<Rightarrow> string" where
  "strip s = dropWhile isspace (rev (dropWhile isspace (rev s)))"

text \<open>\<^verbatim>\<open>sub in s\<close>: the string \<open>sub\<close> occurs in \<open>s\<close> at some position.\<close>

fun py_in :: "string \<Rightarrow> string \<Rightarrow> bool" where
  "py_in sub [] = (sub = [])"
| "py_in sub (c # cs) = (prefix sub (c # cs) \<or> py_in sub cs)"

declare py_in.simps [simp del]

text \<open>
  \<^verbatim>\<open>s.split()\<close>: the maximal runs of characters that are not whitespace. The first
  argument of \<open>split_aux\<close> is the run read so far, last character first.
\<close>

fun split_aux :: "string \<Rightarrow> string \<Rightarrow> string list" where
  "split_aux w [] = (if w = [] then [] else [rev w])"
| "split_aux w (c # cs) =
     (if isspace c then (if w = [] then split_aux [] cs else rev w # split_aux [] cs)
      else split_aux (c # w) cs)"

definition split :: "string \<Rightarrow> string list" where
  "split s = split_aux [] s"

text \<open>\<^verbatim>\<open>sep.join(xs)\<close>.\<close>

fun join :: "string \<Rightarrow> string list \<Rightarrow> string" where
  "join sep [] = []"
| "join sep [x] = x"
| "join sep (x # y # ys) = x @ sep @ join sep (y # ys)"

subsection \<open>Integers and their decimal text\<close>

datatype error = ValueError

definition digit_val :: "char \<Rightarrow> nat" where
  "digit_val c = code_point c - 48"

definition digit_char :: "nat \<Rightarrow> char" where
  "digit_char d = char_of (48 + d)"

text \<open>
  \<^verbatim>\<open>int(w)\<close> on a string \<open>w\<close> that passed \<^verbatim>\<open>isdigit\<close> or was matched by \<^verbatim>\<open>\d+\<close>, the
  only strings the router converts. It raises \<^verbatim>\<open>ValueError\<close> on a character that is
  not a decimal digit, and on more digits than \<^verbatim>\<open>sys.get_int_max_str_digits()\<close>
  allows (4300 unless the interpreter is configured otherwise).
\<close>

definition int_max_str_digits :: nat where
  "int_max_str_digits = 4300"

definition py_int :: "string \<Rightarrow> error + nat" where
  "py_int w =
     (if w \<noteq> [] \<and> list_all isdecimal w \<and> length w \<le> int_max_str_digits
      then Inr (foldl (\<lambda>acc c. 10 * acc + digit_val c) 0 w)
      else Inl ValueError)"

text \<open>\<^verbatim>\<open>str(n)\<close> of an integer, as an f-string prints it.\<close>

function show_nat :: "nat \<Rightarrow> string" where
  "show_nat n = (if n < 10 then [digit_char n] else show_nat (n div 10) @ [digit_char (n mod 10)])"
  by pat_completeness auto
termination
  by (relation "measure id") auto

declare show_nat.simps [simp del]

definition show_int :: "int \<Rightarrow> string" where
  "show_int i = (if i < 0 then CHR ''-'' # show_nat (nat (- i)) else show_nat (nat i))"

section \<open>Dates\<close>

text \<open>
  A \<^verbatim>\<open>datetime\<close> is its fields year, month, day, hour, minute, second and microsecond;
  Python compares two of them field by field in this order, which is the lexicographic
  order of the tuple.
\<close>

type_synonym datetime = "nat \<times> nat \<times> nat \<times> nat \<times> nat \<times> nat \<times> nat"

definition month_abbr :: "string list" where
  "month_abbr = [''jan'', ''feb'', ''mar'', ''apr'', ''may'', ''jun'',
                 ''jul'', ''aug'', ''sep'', ''oct'', ''nov'', ''dec'']"

definition is_leap :: "nat \<Rightarrow> bool" where
  "is_leap y = (y mod 4 = 0 \<and> (y mod 100 \<noteq> 0 \<or> y mod 400 = 0))"

definition days_in_month :: "nat \<Rightarrow> nat \<Rightarrow> nat" where
  "days_in_month y m =
     (if m = 2 then (if is_leap y then 29 else 28)
      else if m = 4 \<or> m = 6 \<or> m = 9 \<or> m = 11 then 30 else 31)"

text \<open>
  \<^verbatim>\<open>datetime.strptime(s, "%d-%b-%y")\<close>. The format compiles to the regular expression
  \<^verbatim>\<open>(?P<d>3[0-1]|[1-2]\d|0[1-9]|[1-9]| [1-9])-(?P<b>jan|...|dec)-(?P<y>\d\d)\<close>, matched
  at the start of \<open>s\<close> ignoring case; text left over after the match, and a day the
  month does not have, raise \<^verbatim>\<open>ValueError\<close> as a failed match does.
  \<open>d_alternatives\<close> lists, in the order the expression tries them, the ways the day
  group can match: the day's text and the rest of the string.
\<close>

fun d_alternatives :: "string \<Rightarrow> (string \<times> string) list" where
  "d_alternatives (a # b # s) =
     (if a = CHR ''3'' \<and> (b = CHR ''0'' \<or> b = CHR ''1'') then [([a, b], s)] else []) @
     (if (a = CHR ''1'' \<or> a = CHR ''2'') \<and> isdecimal b then [([a, b], s)] else []) @
     (if a = CHR ''0'' \<and> isdecimal b \<and> b \<noteq> CHR ''0'' then [([a, b], s)] else []) @
     (if isdecimal a \<and> a \<noteq> CHR ''0'' then [([a], b # s)] else []) @
     (if a = CHR '' '' \<and> isdecimal b \<and> b \<noteq> CHR ''0'' then [([a, b], s)] else [])"
| "d_alternatives [a] = (if isdecimal a \<and> a \<noteq> CHR ''0'' then [([a], [])] else [])"
| "d_alternatives [] = []"

text \<open>The first entry of a list that a function accepts, with what the function made of it.\<close>

fun first_match :: "('a \<Rightarrow> 'b option) \<Rightarrow> 'a list \<Rightarrow> 'b option" where
  "first_match f [] = None"
| "first_match f (x # xs) = (case f x of Some y \<Rightarrow> Some y | None \<Rightarrow> first_match f xs)"

fun index_of :: "'a \<Rightarrow> 'a list \<Rightarrow> nat option" where
  "index_of x [] = None"
| "index_of x (y # ys) = (if x = y then Some 0 else map_option Suc (index_of x ys))"

text \<open>The rest of the expression after the day: month, year, and what is left over.\<close>

fun match_b_y :: "string \<Rightarrow> (nat \<times> nat \<times> string) option" where
  "match_b_y (h1 # m1 # m2 # m3 # h2 # y1 # y2 # rest) =
     (if h1 = CHR ''-'' \<and> h2 = CHR ''-'' \<and> isdecimal y1 \<and> isdecimal y2
      then (case index_of (lower [m1, m2, m3]) month_abbr of
              None \<Rightarrow> None
            | Some i \<Rightarrow> Some (i + 1, 10 * digit_val y1 + digit_val y2, rest))
      else None)"
| "match_b_y _ = None"

definition strptime :: "string \<Rightarrow> error + datetime" where
  "strptime s =
     (case first_match
             (\<lambda>(d, rest). case match_b_y rest of
                              None \<Rightarrow> None
                            | Some (m, y, left) \<Rightarrow> Some (d, m, y, left))
             (d_alternatives s) of
        None \<Rightarrow> Inl ValueError
      | Some (d, m, y, left) \<Rightarrow>
          if left \<noteq> [] then Inl ValueError
          else
            (let year = (if y \<le> 68 then y + 2000 else y + 1900);
                 dd = foldl (\<lambda>acc c. 10 * acc + digit_val c) 0 (dropWhile isspace d)
             in if dd \<le> days_in_month year m then Inr (year, m, dd, 0, 0, 0, 0)
                else Inl ValueError))"

section \<open>The data the router reads\<close>

text \<open>
  The employee table (\<^verbatim>\<open>data/employees.csv\<close>), the holiday list
  (\<^verbatim>\<open>data/holidays.json\<close>) and the vector store of the policy texts are loaded when
  the module is imported and are not part of the repository's sources: they are
  parameters of everything below. A row of the employee table has the columns the
  router reads, the numeric ones taken as integers; a holiday has the three keys the
  router reads, each a string. \<open>similarity_search\<close> stands for
  \<^verbatim>\<open>vectorstore.similarity_search(query, k=k)\<close>, giving the \<^verbatim>\<open>page_content\<close> of each
  document it returns.
\<close>

record employee =
  Emp_ID :: int
  Emp_Name :: string
  Age :: int
  Gender :: string
  Salary :: int
  Designation :: string
  Email :: string
  Phone_Number :: string
  Experience_Years :: int

record holiday =
  occasion :: string
  date :: string
  day :: string

record env =
  employee_df :: "employee list"
  holidays :: "holiday list"
  similarity_search :: "string \<Rightarrow> nat \<Rightarrow> string list"

section \<open>The field response\<close>

definition employee_field_response :: "employee \<Rightarrow> string \<Rightarrow> string" where
  "employee_field_response row q =
     (if py_in ''age'' q then Emp_Name row @ '' is '' @ show_int (Age row) @ '' years old.''
      else if py_in ''gender'' q then Emp_Name row @ '' is '' @ Gender row @ ''.''
      else if py_in ''salary'' q
        then Emp_Name row @ [CHR 0x27] @ ''s salary is '' @ show_int (Salary row) @ ''.''
      else if py_in ''designation'' q
        then Emp_Name row @ '' works as '' @ Designation row @ ''.''
      else if py_in ''email'' q
        then Emp_Name row @ [CHR 0x27] @ ''s email is '' @ Email row @ ''.''
      else if py_in ''phone'' q
        then Emp_Name row @ [CHR 0x27] @ ''s phone number is '' @ Phone_Number row @ ''.''
      else if py_in ''experience'' q
        then Emp_Name row @ '' has '' @ show_int (Experience_Years row)
             @ '' years of experience.''
      else if py_in ''details'' q \<or> py_in ''who is'' q
        then Emp_Name row @ '' is a '' @ Designation row @ '' with ''
             @ show_int (Experience_Years row) @ '' years of experience. ''
             @ ''Salary: '' @ show_int (Salary row) @ ''.''
      else ''Information not available.'')"

section \<open>The matchers of the router\<close>

subsection \<open>The salary pattern\<close>

text \<open>
  \<^verbatim>\<open>re.search(r"(greater than|more than|above|less than|below|>|<)\s*(\d+)", q)\<close>:
  the leftmost position at which one of the alternatives, tried in this order, is
  followed by whitespace (none or more) and one decimal digit or more; the result is
  the two groups, the alternative and the longest run of digits. A whitespace character
  is no digit, so giving back whitespace never makes the digits match.
\<close>

definition salary_conditions :: "string list" where
  "salary_conditions =
     [''greater than'', ''more than'', ''above'', ''less than'', ''below'', ''>'', ''<'']"

definition salary_match_here :: "string \<Rightarrow> string \<Rightarrow> (string \<times> string) option" where
  "salary_match_here s cond =
     (if prefix cond s
      then (let digits = takeWhile isdecimal (dropWhile isspace (drop (length cond) s))
            in if digits = [] then None else Some (cond, digits))
      else None)"

fun salary_search :: "string \<Rightarrow> (string \<times> string) option" where
  "salary_search [] = first_match (salary_match_here []) salary_conditions"
| "salary_search (c # cs) =
     (case first_match (salary_match_here (c # cs)) salary_conditions of
        Some m \<Rightarrow> Some m
      | None \<Rightarrow> salary_search cs)"

subsection \<open>The holiday name pattern\<close>

text \<open>
  \<^verbatim>\<open>re.search(r"\b" + re.escape(name) + r"\b", q)\<close>: \<open>name\<close> occurs in \<open>q\<close> with a word
  boundary on both sides. A word boundary is a position with a word character on
  exactly one side, the two ends of the string counting as no word character.
  \<open>word_search_from w name s\<close> searches the rest \<open>s\<close> of the string, \<open>w\<close> telling whether
  the character before \<open>s\<close> is a word character.
\<close>

definition starts_with_word_char :: "string \<Rightarrow> bool" where
  "starts_with_word_char s = (case s of [] \<Rightarrow> False | c # _ \<Rightarrow> is_word_char c)"

definition word_match_here :: "bool \<Rightarrow> string \<Rightarrow> string \<Rightarrow> bool" where
  "word_match_here w name s =
     (w \<noteq> starts_with_word_char s \<and> prefix name s \<and>
      (if name = [] then w else is_word_char (last name))
        \<noteq> starts_with_word_char (drop (length name) s))"

fun word_search_from :: "bool \<Rightarrow> string \<Rightarrow> string \<Rightarrow> bool" where
  "word_search_from w name [] = word_match_here w name []"
| "word_search_from w name (c # cs) =
     (word_match_here w name (c # cs) \<or> word_search_from (is_word_char c) name cs)"

declare word_search_from.simps [simp del]

definition word_search :: "string \<Rightarrow> string \<Rightarrow> bool" where
  "word_search name q = word_search_from False name q"

subsection \<open>The scan for the upcoming holiday\<close>

text \<open>
  The loop of the upcoming holiday: \<open>best\<close> is the pair of the variables \<^verbatim>\<open>upcoming\<close>
  and \<^verbatim>\<open>upcoming_date\<close>, which the loop sets together. A date that does not parse
  raises.
\<close>

fun upcoming_scan ::
  "datetime \<Rightarrow> holiday list \<Rightarrow> (holiday \<times> datetime) option
     \<Rightarrow> error + (holiday \<times> datetime) option" where
  "upcoming_scan today [] best = Inr best"
| "upcoming_scan today (h # hs) best =
     (case strptime (date h) of
        Inl e \<Rightarrow> Inl e
      | Inr h_date \<Rightarrow>
          upcoming_scan today hs
            (if h_date \<ge> today
             then (case best of
                     None \<Rightarrow> Some (h, h_date)
                   | Some (u, upcoming_date) \<Rightarrow>
                       if h_date < upcoming_date then Some (h, h_date) else best)
             else best))"

subsection \<open>The scan for an employee identifier\<close>

fun id_scan :: "employee list \<Rightarrow> string list \<Rightarrow> error + employee option" where
  "id_scan df [] = Inr None"
| "id_scan df (word # ws) =
     (if isdigit word
      then (case py_int word of
              Inl e \<Rightarrow> Inl e
            | Inr n \<Rightarrow>
                (case List.find (\<lambda>r. Emp_ID r = int n) df of
                   Some emp \<Rightarrow> Inr (Some emp)
                 | None \<Rightarrow> id_scan df ws))
      else id_scan df ws)"

section \<open>The router\<close>

text \<open>
  \<open>retrieve_context\<close> is the function of that name. Its arguments are the data, the
  value \<^verbatim>\<open>datetime.today()\<close> has during the call, the global \<^verbatim>\<open>last_employee\<close> before
  the call and the question. It raises (\<open>Inl\<close>), or returns (\<open>Inr\<close>) the value of the
  \<^verbatim>\<open>return\<close> statement reached (\<open>None\<close> for Python's \<^verbatim>\<open>None\<close>) together with the
  global \<^verbatim>\<open>last_employee\<close> after the call; a call that raises leaves the global as it
  was. The field \<open>via\<close> is no value of the program: it names the numbered section of
  the source whose \<^verbatim>\<open>return\<close> ended the call.
\<close>

datatype matcher =
  SalaryFilter | CountHolidays | ListHolidays | UpcomingHoliday | SpecificHolidayMatch
  | StrictEmployeeCount | EmployeeIdMatch | EmployeeNameMatch | PronounFollowUp
  | PolicyRag | NothingMatched

record outcome =
  returned :: "string option"
  last_employee :: "employee option"
  via :: matcher

definition salary_line :: "employee \<Rightarrow> string" where
  "salary_line row = Emp_Name row @ '' - '' @ show_int (Salary row)"

definition holiday_line :: "holiday \<Rightarrow> string" where
  "holiday_line h = occasion h @ '' - '' @ date h @ '' ('' @ day h @ '')''"

definition pronouns :: "string list" where
  "pronouns = [''his'', ''her'', ''him'', ''he'', ''she'']"

definition policy_words :: "string list" where
  "policy_words = [''policy'', ''leave'', ''break'', ''working hours'', ''attendance'']"

text \<open>
  The last two lines of section 10, on the documents the search returned: their texts
  joined by newlines behind the marker \<^verbatim>\<open>RAG::\<close>, or \<^verbatim>\<open>None\<close> when the joined text
  is empty.
\<close>

definition rag_answer :: "string list \<Rightarrow> string option" where
  "rag_answer docs =
     (let context = join [CHR 0x0A] docs
      in if context \<noteq> [] then Some (''RAG::'' @ context) else None)"

text \<open>Sections 9 and 10 and the last line of the function.\<close>

definition after_name_match :: "env \<Rightarrow> employee option \<Rightarrow> string \<Rightarrow> string \<Rightarrow> outcome" where
  "after_name_match e prev question q =
     (if prev \<noteq> None \<and> list_ex (\<lambda>word. py_in word q) pronouns
      then \<lparr>returned = Some (employee_field_response (the prev) q), last_employee = prev,
            via = PronounFollowUp\<rparr>
      else if list_ex (\<lambda>word. py_in word q) policy_words
      then \<lparr>returned = rag_answer (similarity_search e question 2), last_employee = prev,
            via = PolicyRag\<rparr>
      else \<lparr>returned = Some ''Information not available.'', last_employee = prev,
            via = NothingMatched\<rparr>)"

text \<open>Sections 5 to 8.\<close>

definition after_upcoming :: "env \<Rightarrow> employee option \<Rightarrow> string \<Rightarrow> string \<Rightarrow> error + outcome" where
  "after_upcoming e prev question q =
     (case List.find (\<lambda>h. word_search (lower (occasion h)) q) (holidays e) of
        Some h \<Rightarrow>
          Inr \<lparr>returned = Some (occasion h @ '' is on '' @ date h @ '' ('' @ day h @ '').''),
               last_employee = prev, via = SpecificHolidayMatch\<rparr>
      | None \<Rightarrow>
          if q = ''how many employees'' \<or> q = ''how many employees?''
          then Inr \<lparr>returned = Some (''There are '' @ show_nat (length (employee_df e))
                                        @ '' employees.''),
                    last_employee = prev, via = StrictEmployeeCount\<rparr>
          else
            (case id_scan (employee_df e) (split q) of
               Inl err \<Rightarrow> Inl err
             | Inr (Some emp) \<Rightarrow>
                 Inr \<lparr>returned = Some (employee_field_response emp q),
                      last_employee = Some emp, via = EmployeeIdMatch\<rparr>
             | Inr None \<Rightarrow>
                 (case List.find (\<lambda>row. py_in (lower (Emp_Name row)) q) (employee_df e) of
                    Some row \<Rightarrow>
                      Inr \<lparr>returned = Some (employee_field_response row q),
                           last_employee = Some row, via = EmployeeNameMatch\<rparr>
                  | None \<Rightarrow> Inr (after_name_match e prev question q))))"

text \<open>Section 1, reached with the two groups of the match of the salary pattern.\<close>

definition salary_filter ::
  "env \<Rightarrow> employee option \<Rightarrow> string \<Rightarrow> string \<times> string \<Rightarrow> error + outcome" where
  "salary_filter e prev q m =
     (case py_int (snd m) of
        Inl err \<Rightarrow> Inl err
      | Inr amount \<Rightarrow>
          (let filtered =
                 (if fst m \<in> set [''greater than'', ''more than'', ''above'', ''>'']
                  then filter (\<lambda>row. Salary row > int amount) (employee_df e)
                  else filter (\<lambda>row. Salary row < int amount) (employee_df e))
           in Inr \<lparr>returned =
                     Some (if py_in ''list'' q
                           then (if filtered = [] then ''No employees found.''
                                 else ''Employees matching salary condition:'' @ [CHR 0x0A]
                                      @ join [CHR 0x0A] (map salary_line filtered))
                           else show_nat (length filtered)
                                @ '' employees match the salary condition.''),
                   last_employee = prev, via = SalaryFilter\<rparr>))"

text \<open>
  The body of the function after its first statement, which binds \<open>q\<close>: the sections 1
  to 4, and the later sections through \<open>after_upcoming\<close>.
\<close>

definition route ::
  "env \<Rightarrow> datetime \<Rightarrow> employee option \<Rightarrow> string \<Rightarrow> string \<Rightarrow> error + outcome" where
  "route e today prev question q =
     (let salary_match = salary_search q in
      if py_in ''salary'' q \<and> salary_match \<noteq> None
      then salary_filter e prev q (the salary_match)
      else
          if py_in ''holiday'' q \<and> py_in ''how many'' q
          then Inr \<lparr>returned = Some (''There are '' @ show_nat (length (holidays e))
                                        @ '' holidays in 2026.''),
                    last_employee = prev, via = CountHolidays\<rparr>
          else if py_in ''holiday'' q
                  \<and> list_ex (\<lambda>word. py_in word q) [''list'', ''show'', ''what'']
          then Inr \<lparr>returned = Some (''Here are the company holidays:'' @ [CHR 0x0A]
                                        @ join [CHR 0x0A] (map holiday_line (holidays e))),
                    last_employee = prev, via = ListHolidays\<rparr>
          else
            (case (if py_in ''upcoming'' q \<and> py_in ''holiday'' q
                   then upcoming_scan today (holidays e) None else Inr None) of
               Inl err \<Rightarrow> Inl err
             | Inr (Some (upcoming, upcoming_date)) \<Rightarrow>
                 Inr \<lparr>returned = Some (''Upcoming holiday is '' @ occasion upcoming @ '' on ''
                                        @ date upcoming @ '' ('' @ day upcoming @ '').''),
                      last_employee = prev, via = UpcomingHoliday\<rparr>
             | Inr None \<Rightarrow> after_upcoming e prev question q))"

definition retrieve_context ::
  "env \<Rightarrow> datetime \<Rightarrow> employee option \<Rightarrow> string \<Rightarrow> error + outcome" where
  "retrieve_context e today prev question =
     (let q = strip (lower question) in route e today prev question q)"

section \<open>Sequences of calls\<close>

text \<open>
  A call is the clock reading during it and its question. \<open>run\<close> gives the global
  \<^verbatim>\<open>last_employee\<close> after a sequence of calls; a call that raises leaves it as it was.
\<close>

fun run :: "env \<Rightarrow> employee option \<Rightarrow> (datetime \<times> string) list \<Rightarrow> employee option" where
  "run e prev [] = prev"
| "run e prev ((today, question) # calls) =
     run e (case retrieve_context e today prev question of
              Inl err \<Rightarrow> prev
            | Inr r \<Rightarrow> last_employee r) calls"

text \<open>
  The employee a call writes to the global, if it writes one: what the global holds
  after the call when it was empty before.
\<close>

definition resolved :: "env \<Rightarrow> datetime \<times> string \<Rightarrow> employee option" where
  "resolved e call =
     (case retrieve_context e (fst call) None (snd call) of
        Inl err \<Rightarrow> None
      | Inr r \<Rightarrow> last_employee r)"

text \<open>The employee written most recently in a sequence of calls.\<close>

definition last_resolved :: "env \<Rightarrow> (datetime \<times> string) list \<Rightarrow> employee option" where
  "last_resolved e calls =
     (let written = List.map_filter (resolved e) calls
      in if written = [] then None else Some (last written))"

text \<open>
  The same, worded from the tests of the source: a call resolves an employee when none
  of the sections 1 to 6 claims the question (the salary filter, the three holiday
  sections with the scan finding a holiday or raising, a holiday's name, the employee
  count) and the identifier scan of section 7 finds a row or, the scan finding none,
  the name match of section 8 does. \<open>last_written\<close> is the employee resolved most
  recently in a sequence of calls.
\<close>

definition claimed_before_employees :: "env \<Rightarrow> datetime \<Rightarrow> string \<Rightarrow> bool" where
  "claimed_before_employees e today q =
     ((py_in ''salary'' q \<and> salary_search q \<noteq> None)
      \<or> (py_in ''holiday'' q \<and> py_in ''how many'' q)
      \<or> (py_in ''holiday'' q \<and> list_ex (\<lambda>word. py_in word q) [''list'', ''show'', ''what''])
      \<or> (py_in ''upcoming'' q \<and> py_in ''holiday'' q
           \<and> upcoming_scan today (holidays e) None \<noteq> Inr None)
      \<or> list_ex (\<lambda>h. word_search (lower (occasion h)) q) (holidays e)
      \<or> q = ''how many employees'' \<or> q = ''how many employees?'')"

definition id_or_name_resolution :: "env \<Rightarrow> datetime \<times> string \<Rightarrow> employee option" where
  "id_or_name_resolution e call =
     (let q = strip (lower (snd call))
      in if claimed_before_employees e (fst call) q then None
         else (case id_scan (employee_df e) (split q) of
                 Inl err \<Rightarrow> None
               | Inr (Some emp) \<Rightarrow> Some emp
               | Inr None \<Rightarrow>
                   List.find (\<lambda>row. py_in (lower (Emp_Name row)) q) (employee_df e)))"

definition last_written :: "env \<Rightarrow> (datetime \<times> string) list \<Rightarrow> employee option" where
  "last_written e calls =
     (let written = List.map_filter (id_or_name_resolution e) calls
      in if written = [] then None else Some (last written))"

text \<open>
  No matcher of the sections 1 to 8 claims the question, so that the call comes to the
  pronoun test of section 9: with an empty global that test fails, and the call ends in
  section 10 or on the last line.
\<close>

definition reaches_pronoun_test :: "env \<Rightarrow> datetime \<Rightarrow> string \<Rightarrow> bool" where
  "reaches_pronoun_test e today question =
     (case retrieve_context e today None question of
        Inl err \<Rightarrow> False
      | Inr r \<Rightarrow> via r = PolicyRag \<or> via r = NothingMatched)"

section \<open>The field response as a table\<close>

text \<open>
  The formatter as the specification words it: the keywords in their fixed order, each
  with its sentence, and the first entry with a keyword in the question answers.
\<close>

definition field_table :: "(string list \<times> (employee \<Rightarrow> string)) list" where
  "field_table =
     [([''age''], \<lambda>row. Emp_Name row @ '' is '' @ show_int (Age row) @ '' years old.''),
      ([''gender''], \<lambda>row. Emp_Name row @ '' is '' @ Gender row @ ''.''),
      ([''salary''],
         \<lambda>row. Emp_Name row @ [CHR 0x27] @ ''s salary is '' @ show_int (Salary row) @ ''.''),
      ([''designation''], \<lambda>row. Emp_Name row @ '' works as '' @ Designation row @ ''.''),
      ([''email''], \<lambda>row. Emp_Name row @ [CHR 0x27] @ ''s email is '' @ Email row @ ''.''),
      ([''phone''],
         \<lambda>row. Emp_Name row @ [CHR 0x27] @ ''s phone number is '' @ Phone_Number row @ ''.''),
      ([''experience''],
         \<lambda>row. Emp_Name row @ '' has '' @ show_int (Experience_Years row)
                @ '' years of experience.''),
      ([''details'', ''who is''],
         \<lambda>row. Emp_Name row @ '' is a '' @ Designation row @ '' with ''
                @ show_int (Experience_Years row) @ '' years of experience. ''
                @ ''Salary: '' @ show_int (Salary row) @ ''.'')]"

definition format_field_spec :: "employee \<Rightarrow> string \<Rightarrow> string" where
  "format_field_spec row q =
     (case List.find (\<lambda>entry. list_ex (\<lambda>keyword. py_in keyword q) (fst entry)) field_table of
        Some entry \<Rightarrow> snd entry row
      | None \<Rightarrow> ''Information not available.'')"

text \<open>
  The word search behind a given character, for computing it on literals: the test of
  the boundary is then made only where the name occurs.
\<close>

definition word_match_after :: "char \<Rightarrow> string \<Rightarrow> string \<Rightarrow> bool" where
  "word_match_after p name s = word_match_here (is_word_char p) name s"

definition word_search_after :: "char \<Rightarrow> string \<Rightarrow> string \<Rightarrow> bool" where
  "word_search_after p name s = word_search_from (is_word_char p) name s"

text \<open>The matchers of the sections 1 to 6, which answer without an employee.\<close>

definition early_matcher :: "matcher \<Rightarrow> bool" where
  "early_matcher m =
     (m = SalaryFilter \<or> m = CountHolidays \<or> m = ListHolidays \<or> m = UpcomingHoliday
      \<or> m = SpecificHolidayMatch \<or> m = StrictEmployeeCount)"

section \<open>Example data\<close>

definition asha :: employee where
  "asha = \<lparr>Emp_ID = 101, Emp_Name = ''Asha Rao'', Age = 30, Gender = ''Female'',
           Salary = 50000, Designation = ''Engineer'', Email = ''asha@example.com'',
           Phone_Number = ''9876543210'', Experience_Years = 5\<rparr>"

definition ravi :: employee where
  "ravi = \<lparr>Emp_ID = 102, Emp_Name = ''Ravi Kumar'', Age = 41, Gender = ''Male'',
           Salary = 80000, Designation = ''Manager'', Email = ''ravi@example.com'',
           Phone_Number = ''9876500000'', Experience_Years = 15\<rparr>"

definition new_year :: holiday where
  "new_year = \<lparr>occasion = ''New Year'', date = ''01-Jan-26'', day = ''Thursday''\<rparr>"

definition republic_day :: holiday where
  "republic_day = \<lparr>occasion = ''Republic Day'', date = ''26-Jan-26'', day = ''Monday''\<rparr>"

definition tamil_new_year :: holiday where
  "tamil_new_year =
     \<lparr>occasion = ''Tamil New Year'', date = ''14-Apr-26'', day = ''Tuesday''\<rparr>"

text \<open>A vector store with one policy text, found only by a query in lower case.\<close>

definition example_search :: "string \<Rightarrow> nat \<Rightarrow> string list" where
  "example_search query k =
     (if py_in ''leave'' query then take k [''Employees get 12 casual leaves a year.'']
      else [])"

definition example_env :: env where
  "example_env =
     \<lparr>employee_df = [asha, ravi],
      holidays = [new_year, republic_day, tamil_new_year],
      similarity_search = example_search\<rparr>"

text \<open>The morning of Republic Day 2026.\<close>

definition example_now :: datetime where
  "example_now = (2026, 1, 26, 9, 30, 0, 0)"

text \<open>A holiday list with an occasion that is a word of the employee count question.\<close>

definition staff_day :: holiday where
  "staff_day = \<lparr>occasion = ''Employees'', date = ''01-May-26'', day = ''Friday''\<rparr>"

definition staff_day_env :: env where
  "staff_day_env = example_env\<lparr>holidays := [staff_day]\<rparr>"

text \<open>
  A question in which every character that \<^verbatim>\<open>str.isdigit\<close> accepts is a decimal digit:
  it has none of the superscript digits, which \<^verbatim>\<open>isdigit\<close> accepts and \<^verbatim>\<open>int\<close> refuses.
\<close>

definition plain_digits :: "string \<Rightarrow> bool" where
  "plain_digits s = list_all (\<lambda>c. isdigit_char c \<longrightarrow> isdecimal c) s"

text \<open>The example data with a policy index that finds no passage.\<close>

definition empty_store_env :: env where
  "empty_store_env = example_env\<lparr>similarity_search := (\<lambda>query k. [])\<rparr>"

section \<open>Facts about strings and numbers\<close>

text \<open>
  A character of a given code point, bit by bit: with this equation the simplifier
  computes \<open>lower\<close> and \<open>show_nat\<close> on literals.
\<close>

lemma char_of_nat_bits:
  "char_of (n::nat) = Char (odd n) (odd (n div 2)) (odd (n div 4)) (odd (n div 8))
     (odd (n div 16)) (odd (n div 32)) (odd (n div 64)) (odd (n div 128))"
  by (simp add: char_of_def bit_iff_odd)

lemma code_point_less: "code_point c < 256"
  by (simp add: code_point_def)

lemma code_point_char_of: "n < 256 \<Longrightarrow> code_point (char_of n) = n"
  by (simp add: code_point_def)

lemma py_in_sublist: "py_in w s = sublist w s"
  by (induction s) (auto simp: py_in.simps sublist_Cons_right)

text \<open>
  Equations that compute on a literal pattern only, so that the simplifier does not
  unfold a search whose pattern is still unknown.
\<close>

lemma py_in_eval:
  "py_in [] s = True"
  "py_in (a # as) [] = False"
  "py_in (a # as) (c # cs) = (prefix (a # as) (c # cs) \<or> py_in (a # as) cs)"
  by (simp_all add: py_in_sublist sublist_Cons_right)

lemma word_match_here_lazy:
  "word_match_here w name s =
     (if prefix name s
      then w \<noteq> starts_with_word_char s \<and>
           (if name = [] then w else is_word_char (last name))
             \<noteq> starts_with_word_char (drop (length name) s)
      else False)"
  by (auto simp: word_match_here_def)

lemma word_match_after_lazy:
  "word_match_after p name s =
     (if prefix name s
      then is_word_char p \<noteq> starts_with_word_char s \<and>
           (if name = [] then is_word_char p else is_word_char (last name))
             \<noteq> starts_with_word_char (drop (length name) s)
      else False)"
  by (auto simp: word_match_after_def word_match_here_def)

lemma word_search_lazy:
  "word_search (a # as) [] = False"
  "word_search (a # as) (c # cs)
     = (word_match_here False (a # as) (c # cs) \<or> word_search_after c (a # as) cs)"
  "word_search_after p (a # as) [] = False"
  "word_search_after p (a # as) (c # cs)
     = (word_match_after p (a # as) (c # cs) \<or> word_search_after c (a # as) cs)"
  by (simp_all add: word_search_def word_search_after_def word_match_after_def
        word_match_here_def word_search_from.simps)

lemma py_in_appendI: "py_in w (ps @ w @ ss)"
  by (simp add: py_in_sublist)

lemma py_in_lstrip:
  assumes "w \<noteq> []" and "\<not> isspace (hd w)"
  shows "py_in w (dropWhile isspace s) = py_in w s"
proof (induction s)
  case Nil
  show ?case by simp
next
  case (Cons c cs)
  show ?case
  proof (cases "isspace c")
    case True
    with assms have "\<not> prefix w (c # cs)"
      by (cases w) auto
    with True Cons show ?thesis by (simp add: py_in.simps)
  next
    case False
    then show ?thesis by simp
  qed
qed

lemma py_in_strip:
  assumes "w \<noteq> []" and "\<not> isspace (hd w)" and "\<not> isspace (last w)"
  shows "py_in w (strip s) = py_in w s"
proof -
  have r: "py_in (rev w) (dropWhile isspace (rev s)) = py_in (rev w) (rev s)"
    using assms by (intro py_in_lstrip) (simp_all add: hd_rev)
  have "py_in w (strip s) = py_in w (rev (dropWhile isspace (rev s)))"
    unfolding strip_def by (rule py_in_lstrip [OF assms(1,2)])
  also have "\<dots> = py_in (rev w) (dropWhile isspace (rev s))"
    by (simp add: py_in_sublist sublist_rev_right)
  also have "\<dots> = py_in w s"
    by (simp add: r) (simp add: py_in_sublist)
  finally show ?thesis .
qed

lemma isdecimal_not_isspace: "isdecimal c \<Longrightarrow> \<not> isspace c"
  by (auto simp: isdecimal_def isspace_def Let_def)

lemma isdecimal_lower_char: "isdecimal c \<Longrightarrow> lower_char c = c"
  by (auto simp: isdecimal_def lower_char_def Let_def)

lemma lower_decimal: "list_all isdecimal ds \<Longrightarrow> lower ds = ds"
  by (induction ds) (auto simp: lower_def isdecimal_lower_char)

lemma lower_append: "lower (a @ b) = lower a @ lower b"
  by (simp add: lower_def)

lemma length_lower: "length (lower s) = length s"
  by (simp add: lower_def)

lemma length_strip: "length (strip s) \<le> length s"
proof -
  have "length (dropWhile isspace (rev (dropWhile isspace (rev s))))
          \<le> length (rev (dropWhile isspace (rev s)))"
    by (rule length_dropWhile_le)
  also have "\<dots> \<le> length s"
    using length_dropWhile_le [of isspace "rev s"] by simp
  finally show ?thesis by (simp add: strip_def)
qed

lemma set_strip: "set (strip s) \<subseteq> set s"
proof -
  have "set (strip s) \<subseteq> set (rev (dropWhile isspace (rev s)))"
    unfolding strip_def by (rule set_dropWhileD [THEN subsetI]) 
  also have "\<dots> \<subseteq> set s"
    using set_dropWhileD [of _ isspace "rev s"] by auto
  finally show ?thesis .
qed

lemma strip_id:
  assumes "s \<noteq> []" and "\<not> isspace (hd s)" and "\<not> isspace (last s)"
  shows "strip s = s"
proof -
  have "dropWhile isspace (rev s) = rev s"
    using assms by (cases "rev s") (auto simp: last_rev [symmetric] hd_rev)
  moreover have "dropWhile isspace s = s"
    using assms by (cases s) auto
  ultimately show ?thesis by (simp add: strip_def)
qed

lemma digit_char_decimal: "d < 10 \<Longrightarrow> isdecimal (digit_char d)"
  by (simp add: isdecimal_def digit_char_def code_point_char_of)

lemma digit_val_digit_char: "d < 10 \<Longrightarrow> digit_val (digit_char d) = d"
  by (simp add: digit_val_def digit_char_def code_point_char_of)

lemma show_nat_decimal: "list_all isdecimal (show_nat n)"
proof (induction n rule: show_nat.induct)
  case (1 n)
  then show ?case
    by (subst show_nat.simps) (auto simp: digit_char_decimal)
qed

lemma show_nat_not_Nil: "show_nat n \<noteq> []"
  by (subst show_nat.simps) simp

lemma foldl_show_nat: "foldl (\<lambda>acc c. 10 * acc + digit_val c) 0 (show_nat n) = n"
proof (induction n rule: show_nat.induct)
  case (1 n)
  show ?case
  proof (cases "n < 10")
    case True
    then show ?thesis
      by (subst show_nat.simps) (simp add: digit_val_digit_char)
  next
    case False
    with 1 show ?thesis
      by (subst show_nat.simps) (simp add: digit_val_digit_char)
  qed
qed

lemma py_int_show_nat:
  "length (show_nat n) \<le> int_max_str_digits \<Longrightarrow> py_int (show_nat n) = Inr n"
  by (simp add: py_int_def show_nat_decimal show_nat_not_Nil foldl_show_nat)


text \<open>The equations that compute the router on literal data.\<close>

lemmas eval_defs = char_of_nat_bits code_point_def isspace_def isdecimal_def isdigit_char_def
  isdigit_def isalpha_char_def is_word_char_def lower_char_def lower_def strip_def split_def
  digit_val_def digit_char_def int_max_str_digits_def py_int_def show_nat.simps show_int_def
  month_abbr_def is_leap_def days_in_month_def strptime_def employee_field_response_def
  salary_conditions_def salary_match_here_def starts_with_word_char_def word_match_here_lazy
  word_match_after_lazy word_search_lazy py_in_eval salary_line_def holiday_line_def pronouns_def policy_words_def rag_answer_def
  after_name_match_def after_upcoming_def salary_filter_def route_def retrieve_context_def
  asha_def ravi_def new_year_def republic_day_def tamil_new_year_def example_search_def
  example_env_def example_now_def Let_def


section \<open>The field response (claim C8)\<close>

text \<open>
  Claim C8. For every employee record and every question, the if-chain of
  \<open>employee_field_response\<close> is the first-match lookup in the table of keywords in
  the order age, gender, salary, designation, email, phone, experience, then
  details / who is: it returns the sentence of the first entry that has a keyword in
  the question. So a question that contains salary and email (and neither of the two
  keywords tested before salary) gets the salary sentence, and a question with
  none of the keywords gets the fixed message.
\<close>

theorem field_response_order:
  "employee_field_response row q = format_field_spec row q \<and>
   (py_in ''salary'' q \<and> py_in ''email'' q \<and> \<not> py_in ''age'' q \<and> \<not> py_in ''gender'' q \<longrightarrow>
      employee_field_response row q
        = Emp_Name row @ [CHR 0x27] @ ''s salary is '' @ show_int (Salary row) @ ''.'') \<and>
   (list_all (\<lambda>entry. list_all (\<lambda>keyword. \<not> py_in keyword q) (fst entry)) field_table \<longrightarrow>
      employee_field_response row q = ''Information not available.'')"
  by (simp add: employee_field_response_def format_field_spec_def field_table_def)

theorem field_response_order_witness:
  "employee_field_response ravi ''what is the salary and email of ravi kumar?''
     = format_field_spec ravi ''what is the salary and email of ravi kumar?'' \<and>
   employee_field_response ravi ''what is the salary and email of ravi kumar?''
     = ''Ravi Kumar'' @ [CHR 0x27] @ ''s salary is 80000.'' \<and>
   employee_field_response ravi ''where does ravi kumar live?'' = ''Information not available.''"
  using field_response_order [of ravi "''what is the salary and email of ravi kumar?''"]
    field_response_order [of ravi "''where does ravi kumar live?''"]
  by (simp add: field_table_def eval_defs)


section \<open>The frame of the global (claim C5)\<close>

lemma after_name_match_frame:
  "last_employee (after_name_match e prev question q) = prev \<and>
   via (after_name_match e prev question q) \<in> {PronounFollowUp, PolicyRag, NothingMatched}"
  by (simp add: after_name_match_def)

lemma find_in_set: "List.find P xs = Some x \<Longrightarrow> x \<in> set xs"
  by (auto simp: find_Some_iff)

lemma id_scan_in_set: "id_scan df ws = Inr (Some emp) \<Longrightarrow> emp \<in> set df"
  by (induction ws) (auto split: if_splits sum.splits option.splits dest: find_in_set)

lemma after_upcoming_frame:
  assumes "after_upcoming e prev question q = Inr r"
  shows "(via r = EmployeeIdMatch \<or> via r = EmployeeNameMatch) \<and>
           (\<exists>emp. emp \<in> set (employee_df e) \<and> last_employee r = Some emp)
         \<or> via r \<noteq> EmployeeIdMatch \<and> via r \<noteq> EmployeeNameMatch \<and> last_employee r = prev"
proof (cases "List.find (\<lambda>h. word_search (lower (occasion h)) q) (holidays e)")
  case (Some h)
  with assms show ?thesis by (auto simp: after_upcoming_def)
next
  case None
  note no_holiday = None
  show ?thesis
  proof (cases "q = ''how many employees'' \<or> q = ''how many employees?''")
    case True
    with assms no_holiday show ?thesis by (auto simp: after_upcoming_def)
  next
    case False
    note not_count = False
    show ?thesis
    proof (cases "id_scan (employee_df e) (split q)")
      case (Inl err)
      with assms no_holiday not_count show ?thesis by (simp add: after_upcoming_def)
    next
      case (Inr found)
      note scan = Inr
      show ?thesis
      proof (cases found)
        case (Some emp)
        with scan have "emp \<in> set (employee_df e)" by (auto dest: id_scan_in_set)
        with assms no_holiday not_count scan Some show ?thesis
          by (auto simp: after_upcoming_def)
      next
        case None
        note no_id = None
        show ?thesis
        proof (cases "List.find (\<lambda>row. py_in (lower (Emp_Name row)) q) (employee_df e)")
          case (Some row)
          then have "row \<in> set (employee_df e)" by (rule find_in_set)
          with assms no_holiday not_count scan no_id Some show ?thesis
            by (auto simp: after_upcoming_def)
        next
          case None
          with assms no_holiday not_count scan no_id
          have "r = after_name_match e prev question q"
            by (simp add: after_upcoming_def)
          then show ?thesis
            using after_name_match_frame [of e prev question q] by auto
        qed
      qed
    qed
  qed
qed

lemma salary_filter_frame:
  "salary_filter e prev q m = Inr r \<Longrightarrow> via r = SalaryFilter \<and> last_employee r = prev"
  by (auto simp: salary_filter_def Let_def split: sum.splits)

lemma retrieve_context_frame:
  assumes "retrieve_context e today prev question = Inr r"
  shows "(via r = EmployeeIdMatch \<or> via r = EmployeeNameMatch) \<and>
           (\<exists>emp. emp \<in> set (employee_df e) \<and> last_employee r = Some emp)
         \<or> via r \<noteq> EmployeeIdMatch \<and> via r \<noteq> EmployeeNameMatch \<and> last_employee r = prev"
proof -
  define q where "q = strip (lower question)"
  consider (salary) "py_in ''salary'' q \<and> salary_search q \<noteq> None"
    | (count) "\<not> (py_in ''salary'' q \<and> salary_search q \<noteq> None)"
        "py_in ''holiday'' q \<and> py_in ''how many'' q"
    | (list) "\<not> (py_in ''salary'' q \<and> salary_search q \<noteq> None)"
        "\<not> (py_in ''holiday'' q \<and> py_in ''how many'' q)"
        "py_in ''holiday'' q \<and> list_ex (\<lambda>word. py_in word q) [''list'', ''show'', ''what'']"
    | (rest) "\<not> (py_in ''salary'' q \<and> salary_search q \<noteq> None)"
        "\<not> (py_in ''holiday'' q \<and> py_in ''how many'' q)"
        "\<not> (py_in ''holiday'' q \<and> list_ex (\<lambda>word. py_in word q) [''list'', ''show'', ''what''])"
    by blast
  then show ?thesis
  proof cases
    case salary
    with assms have "salary_filter e prev q (the (salary_search q)) = Inr r"
      by (simp add: retrieve_context_def route_def q_def Let_def)
    then show ?thesis by (auto dest: salary_filter_frame)
  next
    case count
    with assms show ?thesis
      by (auto simp: retrieve_context_def route_def Let_def q_def [symmetric])
  next
    case list
    with assms show ?thesis
      by (auto simp: retrieve_context_def route_def Let_def q_def [symmetric])
  next
    case rest
    with assms show ?thesis
      by (auto simp: retrieve_context_def route_def Let_def q_def [symmetric]
            split: sum.splits option.splits prod.splits if_splits dest: after_upcoming_frame)
  qed
qed


text \<open>
  Claim C5. A call that returns changes the global \<open>last_employee\<close> only when it
  ends in the identifier match or the name match, and then it holds a row of the
  employee table; every other return (salary filter, the holiday matchers, the
  employee count, the pronoun follow-up, the policy fallback, the last line) leaves it
  as it was, and no return empties a global that held an employee. A call that raises
  has not assigned the global.
\<close>

theorem pointer_frame:
  assumes "retrieve_context e today prev question = Inr r"
  shows "(via r \<noteq> EmployeeIdMatch \<and> via r \<noteq> EmployeeNameMatch \<longrightarrow> last_employee r = prev) \<and>
         (via r = EmployeeIdMatch \<or> via r = EmployeeNameMatch \<longrightarrow>
            (\<exists>emp. emp \<in> set (employee_df e) \<and> last_employee r = Some emp)) \<and>
         (prev \<noteq> None \<longrightarrow> last_employee r \<noteq> None)"
  using retrieve_context_frame [OF assms] by auto


theorem pointer_frame_witness:
  "retrieve_context example_env example_now (Some asha) ''salary of 102''
     = Inr \<lparr>returned = Some (''Ravi Kumar'' @ [CHR 0x27] @ ''s salary is 80000.''),
            last_employee = Some ravi, via = EmployeeIdMatch\<rparr> \<and>
   ravi \<in> set (employee_df example_env) \<and>
   retrieve_context example_env example_now (Some ravi) ''how many holidays?''
     = Inr \<lparr>returned = Some ''There are 3 holidays in 2026.'',
            last_employee = Some ravi, via = CountHolidays\<rparr>"
proof -
  have a: "retrieve_context example_env example_now (Some asha) ''salary of 102''
     = Inr \<lparr>returned = Some (''Ravi Kumar'' @ [CHR 0x27] @ ''s salary is 80000.''),
            last_employee = Some ravi, via = EmployeeIdMatch\<rparr>"
    by (simp add: eval_defs)
  have b: "retrieve_context example_env example_now (Some ravi) ''how many holidays?''
     = Inr \<lparr>returned = Some ''There are 3 holidays in 2026.'',
            last_employee = Some ravi, via = CountHolidays\<rparr>"
    by (simp add: eval_defs)
  from pointer_frame [OF a] have "ravi \<in> set (employee_df example_env)"
    by simp
  with a b show ?thesis by simp
qed

section \<open>The shape of a call\<close>

lemma after_upcoming_shape:
  "(\<exists>err. \<forall>prev question. after_upcoming e prev question q = Inl err)
   \<or> (\<exists>answer m. (m = SpecificHolidayMatch \<or> m = StrictEmployeeCount) \<and>
         (\<forall>prev question. after_upcoming e prev question q
            = Inr \<lparr>returned = Some answer, last_employee = prev, via = m\<rparr>))
   \<or> (\<exists>emp m. (m = EmployeeIdMatch \<or> m = EmployeeNameMatch) \<and> emp \<in> set (employee_df e) \<and>
         (\<forall>prev question. after_upcoming e prev question q
            = Inr \<lparr>returned = Some (employee_field_response emp q),
                   last_employee = Some emp, via = m\<rparr>))
   \<or> (\<forall>prev question. after_upcoming e prev question q = Inr (after_name_match e prev question q))"
proof (cases "List.find (\<lambda>h. word_search (lower (occasion h)) q) (holidays e)")
  case (Some h)
  then show ?thesis by (simp add: after_upcoming_def)
next
  case None
  note no_holiday = None
  show ?thesis
  proof (cases "q = ''how many employees'' \<or> q = ''how many employees?''")
    case True
    with no_holiday show ?thesis by (simp add: after_upcoming_def)
  next
    case False
    note not_count = False
    show ?thesis
    proof (cases "id_scan (employee_df e) (split q)")
      case (Inl err)
      with no_holiday not_count show ?thesis by (simp add: after_upcoming_def)
    next
      case (Inr found)
      note scan = Inr
      show ?thesis
      proof (cases found)
        case (Some emp)
        with scan have "emp \<in> set (employee_df e)" by (auto dest: id_scan_in_set)
        with no_holiday not_count scan Some show ?thesis
          by (auto simp: after_upcoming_def)
      next
        case None
        note no_id = None
        show ?thesis
        proof (cases "List.find (\<lambda>row. py_in (lower (Emp_Name row)) q) (employee_df e)")
          case (Some row)
          then have "row \<in> set (employee_df e)" by (rule find_in_set)
          with no_holiday not_count scan no_id Some show ?thesis
            by (auto simp: after_upcoming_def)
        next
          case None
          with no_holiday not_count scan no_id show ?thesis
            by (simp add: after_upcoming_def)
        qed
      qed
    qed
  qed
qed

text \<open>
  The first four sections of the router, one equation for each way through their tests.
  \<open>q\<close> is the lowercased, stripped question.
\<close>

lemma rc_salary:
  assumes "strip (lower question) = q"
      and "py_in ''salary'' q \<and> salary_search q \<noteq> None"
  shows "retrieve_context e today prev question
           = salary_filter e prev q (the (salary_search q))"
  unfolding retrieve_context_def route_def Let_def
  using assms by (simp only: if_True simp_thms)

lemma rc_count:
  assumes "strip (lower question) = q"
      and "\<not> (py_in ''salary'' q \<and> salary_search q \<noteq> None)"
      and "py_in ''holiday'' q \<and> py_in ''how many'' q"
  shows "retrieve_context e today prev question
           = Inr \<lparr>returned = Some (''There are '' @ show_nat (length (holidays e))
                                    @ '' holidays in 2026.''),
                  last_employee = prev, via = CountHolidays\<rparr>"
  unfolding retrieve_context_def route_def Let_def
  using assms by (simp only: if_True if_False simp_thms)

lemma rc_list:
  assumes "strip (lower question) = q"
      and "\<not> (py_in ''salary'' q \<and> salary_search q \<noteq> None)"
      and "\<not> (py_in ''holiday'' q \<and> py_in ''how many'' q)"
      and "py_in ''holiday'' q \<and> list_ex (\<lambda>word. py_in word q) [''list'', ''show'', ''what'']"
  shows "retrieve_context e today prev question
           = Inr \<lparr>returned = Some (''Here are the company holidays:'' @ [CHR 0x0A]
                                    @ join [CHR 0x0A] (map holiday_line (holidays e))),
                  last_employee = prev, via = ListHolidays\<rparr>"
  unfolding retrieve_context_def route_def Let_def
  using assms by (simp only: if_True if_False simp_thms)

lemma rc_rest:
  assumes "strip (lower question) = q"
      and "\<not> (py_in ''salary'' q \<and> salary_search q \<noteq> None)"
      and "\<not> (py_in ''holiday'' q \<and> py_in ''how many'' q)"
      and "\<not> (py_in ''holiday'' q
               \<and> list_ex (\<lambda>word. py_in word q) [''list'', ''show'', ''what''])"
  shows "retrieve_context e today prev question
           = (case (if py_in ''upcoming'' q \<and> py_in ''holiday'' q
                    then upcoming_scan today (holidays e) None else Inr None) of
                Inl err \<Rightarrow> Inl err
              | Inr (Some (upcoming, upcoming_date)) \<Rightarrow>
                  Inr \<lparr>returned = Some (''Upcoming holiday is '' @ occasion upcoming
                                          @ '' on '' @ date upcoming @ '' (''
                                          @ day upcoming @ '').''),
                       last_employee = prev, via = UpcomingHoliday\<rparr>
              | Inr None \<Rightarrow> after_upcoming e prev question q)"
  unfolding retrieve_context_def route_def Let_def
  using assms by (simp only: if_True if_False simp_thms)

lemma retrieve_context_shape:
  "(\<exists>err. \<forall>prev question. strip (lower question) = q \<longrightarrow>
            retrieve_context e today prev question = Inl err)
   \<or> (\<exists>answer m. early_matcher m \<and>
         (\<forall>prev question. strip (lower question) = q \<longrightarrow>
            retrieve_context e today prev question
              = Inr \<lparr>returned = Some answer, last_employee = prev, via = m\<rparr>))
   \<or> (\<exists>emp m. (m = EmployeeIdMatch \<or> m = EmployeeNameMatch) \<and> emp \<in> set (employee_df e) \<and>
         (\<forall>prev question. strip (lower question) = q \<longrightarrow>
            retrieve_context e today prev question
              = Inr \<lparr>returned = Some (employee_field_response emp q),
                     last_employee = Some emp, via = m\<rparr>))
   \<or> (\<forall>prev question. strip (lower question) = q \<longrightarrow>
          retrieve_context e today prev question = Inr (after_name_match e prev question q))"
proof -
  define sal where "sal = (py_in ''salary'' q \<and> salary_search q \<noteq> None)"
  define cnt where "cnt = (py_in ''holiday'' q \<and> py_in ''how many'' q)"
  define lst where
    "lst = (py_in ''holiday'' q \<and> list_ex (\<lambda>word. py_in word q) [''list'', ''show'', ''what''])"
  define scan where
    "scan = (if py_in ''upcoming'' q \<and> py_in ''holiday'' q
             then upcoming_scan today (holidays e) None else Inr None)"
  consider (salary) "sal" | (count) "\<not> sal" "cnt" | (list) "\<not> sal" "\<not> cnt" "lst"
    | (rest) "\<not> sal" "\<not> cnt" "\<not> lst"
    by blast
  then show ?thesis
  proof cases
    case salary
    have rc: "retrieve_context e today prev question
                = salary_filter e prev q (the (salary_search q))"
      if "strip (lower question) = q" for prev question
      using that salary unfolding sal_def by (rule rc_salary)
    show ?thesis
    proof (cases "py_int (snd (the (salary_search q)))")
      case (Inl err)
      then have "\<forall>prev question. strip (lower question) = q \<longrightarrow>
                   retrieve_context e today prev question = Inl err"
        by (simp add: rc salary_filter_def)
      then show ?thesis by blast
    next
      case (Inr amount)
      obtain answer where
        "\<forall>prev. salary_filter e prev q (the (salary_search q))
           = Inr \<lparr>returned = Some answer, last_employee = prev, via = SalaryFilter\<rparr>"
        using Inr by (simp add: salary_filter_def Let_def)
      then have "\<forall>prev question. strip (lower question) = q \<longrightarrow>
                   retrieve_context e today prev question
                     = Inr \<lparr>returned = Some answer, last_employee = prev, via = SalaryFilter\<rparr>"
        by (simp add: rc)
      moreover have "early_matcher SalaryFilter" by (simp add: early_matcher_def)
      ultimately show ?thesis by blast
    qed
  next
    case count
    have rc: "\<forall>prev question. strip (lower question) = q \<longrightarrow>
                retrieve_context e today prev question
                = Inr \<lparr>returned = Some (''There are '' @ show_nat (length (holidays e))
                                         @ '' holidays in 2026.''),
                       last_employee = prev, via = CountHolidays\<rparr>"
      using count unfolding sal_def cnt_def by (blast intro: rc_count)
    have "early_matcher CountHolidays" by (simp add: early_matcher_def)
    with rc show ?thesis by blast
  next
    case list
    have rc: "\<forall>prev question. strip (lower question) = q \<longrightarrow>
                retrieve_context e today prev question
                = Inr \<lparr>returned = Some (''Here are the company holidays:'' @ [CHR 0x0A]
                                         @ join [CHR 0x0A] (map holiday_line (holidays e))),
                       last_employee = prev, via = ListHolidays\<rparr>"
      using list unfolding sal_def cnt_def lst_def by (blast intro: rc_list)
    have "early_matcher ListHolidays" by (simp add: early_matcher_def)
    with rc show ?thesis by blast
  next
    case rest
    have rc: "retrieve_context e today prev question
                = (case scan of
                     Inl err \<Rightarrow> Inl err
                   | Inr (Some (upcoming, upcoming_date)) \<Rightarrow>
                       Inr \<lparr>returned = Some (''Upcoming holiday is '' @ occasion upcoming
                                               @ '' on '' @ date upcoming @ '' (''
                                               @ day upcoming @ '').''),
                            last_employee = prev, via = UpcomingHoliday\<rparr>
                   | Inr None \<Rightarrow> after_upcoming e prev question q)"
      if "strip (lower question) = q" for prev question
      unfolding scan_def using that rest unfolding sal_def cnt_def lst_def by (rule rc_rest)
    show ?thesis
    proof (cases scan)
      case (Inl err)
      then have "\<forall>prev question. strip (lower question) = q \<longrightarrow>
                   retrieve_context e today prev question = Inl err"
        by (simp add: rc)
      then show ?thesis by blast
    next
      case (Inr best)
      note scan_result = Inr
      show ?thesis
      proof (cases best)
        case (Some found)
        obtain upcoming upcoming_date where "found = (upcoming, upcoming_date)"
          by (cases found)
        with scan_result Some
        have "\<forall>prev question. strip (lower question) = q \<longrightarrow>
                retrieve_context e today prev question
                  = Inr \<lparr>returned = Some (''Upcoming holiday is '' @ occasion upcoming
                                          @ '' on '' @ date upcoming @ '' (''
                                          @ day upcoming @ '').''),
                         last_employee = prev, via = UpcomingHoliday\<rparr>"
          by (simp add: rc)
        moreover have "early_matcher UpcomingHoliday" by (simp add: early_matcher_def)
        ultimately show ?thesis by blast
      next
        case None
        with scan_result
        have rc': "retrieve_context e today prev question = after_upcoming e prev question q"
          if "strip (lower question) = q" for prev question
          using that by (simp add: rc)
        have em: "early_matcher SpecificHolidayMatch" "early_matcher StrictEmployeeCount"
          by (simp_all add: early_matcher_def)
        from after_upcoming_shape [of e q]
        consider (raise) err where
            "\<forall>prev question. after_upcoming e prev question q = Inl err"
          | (early) answer m where "m = SpecificHolidayMatch \<or> m = StrictEmployeeCount"
            "\<forall>prev question. after_upcoming e prev question q
               = Inr \<lparr>returned = Some answer, last_employee = prev, via = m\<rparr>"
          | (resolve) emp m where "m = EmployeeIdMatch \<or> m = EmployeeNameMatch"
            "emp \<in> set (employee_df e)"
            "\<forall>prev question. after_upcoming e prev question q
               = Inr \<lparr>returned = Some (employee_field_response emp q),
                      last_employee = Some emp, via = m\<rparr>"
          | (late) "\<forall>prev question. after_upcoming e prev question q
                      = Inr (after_name_match e prev question q)"
          by blast
        then show ?thesis
        proof cases
          case raise
          then have "\<forall>prev question. strip (lower question) = q \<longrightarrow>
                       retrieve_context e today prev question = Inl err"
            by (simp add: rc')
          then show ?thesis by blast
        next
          case early
          then have "\<forall>prev question. strip (lower question) = q \<longrightarrow>
                       retrieve_context e today prev question
                         = Inr \<lparr>returned = Some answer, last_employee = prev, via = m\<rparr>"
            by (simp add: rc')
          moreover from early(1) em have "early_matcher m" by auto
          ultimately show ?thesis by blast
        next
          case resolve
          then have "\<forall>prev question. strip (lower question) = q \<longrightarrow>
                       retrieve_context e today prev question
                         = Inr \<lparr>returned = Some (employee_field_response emp q),
                                last_employee = Some emp, via = m\<rparr>"
            by (simp add: rc')
          with resolve(1,2) show ?thesis by blast
        next
          case late
          then have "\<forall>prev question. strip (lower question) = q \<longrightarrow>
                       retrieve_context e today prev question
                         = Inr (after_name_match e prev question q)"
            by (simp add: rc')
          then show ?thesis by blast
        qed
      qed
    qed
  qed
qed


lemma after_name_match_via:
  "via (after_name_match e prev question q) = PronounFollowUp
     \<or> via (after_name_match e prev question q) = PolicyRag
     \<or> via (after_name_match e prev question q) = NothingMatched"
  by (simp add: after_name_match_def)

lemma after_name_match_pointer: "last_employee (after_name_match e prev question q) = prev"
  by (simp add: after_name_match_def)

lemma after_name_match_None:
  "via (after_name_match e None question q) \<noteq> PronounFollowUp"
  by (simp add: after_name_match_def)

text \<open>A question that comes to the pronoun test does so whatever the global holds.\<close>

lemma reaches_pronoun_test_late:
  assumes "reaches_pronoun_test e today question"
  shows "retrieve_context e today prev question
           = Inr (after_name_match e prev question (strip (lower question)))"
proof -
  define q where "q = strip (lower question)"
  from retrieve_context_shape [of q e today]
  consider (raise) err where "retrieve_context e today None question = Inl err"
    | (early) answer m where "early_matcher m"
        "retrieve_context e today None question
           = Inr \<lparr>returned = Some answer, last_employee = None, via = m\<rparr>"
    | (resolve) emp m where "m = EmployeeIdMatch \<or> m = EmployeeNameMatch"
        "retrieve_context e today None question
           = Inr \<lparr>returned = Some (employee_field_response emp q),
                  last_employee = Some emp, via = m\<rparr>"
    | (late) "\<forall>prev question'. strip (lower question') = q \<longrightarrow>
                retrieve_context e today prev question'
                  = Inr (after_name_match e prev question' q)"
    unfolding q_def by blast
  then show ?thesis
  proof cases
    case raise
    with assms show ?thesis by (simp add: reaches_pronoun_test_def)
  next
    case early
    with assms show ?thesis by (auto simp: reaches_pronoun_test_def early_matcher_def)
  next
    case resolve
    with assms show ?thesis by (auto simp: reaches_pronoun_test_def)
  next
    case late
    then show ?thesis by (simp add: q_def)
  qed
qed

text \<open>What a call does to the global: it overwrites it or leaves it.\<close>

lemma call_effect:
  "(case retrieve_context e today prev question of Inl err \<Rightarrow> prev | Inr r \<Rightarrow> last_employee r)
     = (case resolved e (today, question) of Some emp \<Rightarrow> Some emp | None \<Rightarrow> prev)"
proof -
  define q where "q = strip (lower question)"
  from retrieve_context_shape [of q e today]
  consider (raise) err where "\<forall>prev. retrieve_context e today prev question = Inl err"
    | (early) answer m where
        "\<forall>prev. retrieve_context e today prev question
           = Inr \<lparr>returned = Some answer, last_employee = prev, via = m\<rparr>"
    | (resolve) emp m where
        "\<forall>prev. retrieve_context e today prev question
           = Inr \<lparr>returned = Some (employee_field_response emp q),
                  last_employee = Some emp, via = m\<rparr>"
    | (late) "\<forall>prev. retrieve_context e today prev question
                = Inr (after_name_match e prev question q)"
    unfolding q_def by blast
  then show ?thesis
    by cases (simp_all add: resolved_def after_name_match_pointer)
qed

lemma last_resolved_Nil: "last_resolved e [] = None"
  by (simp add: last_resolved_def map_filter_simps)

lemma last_resolved_Cons:
  "last_resolved e (call # calls)
     = (case last_resolved e calls of Some emp \<Rightarrow> Some emp | None \<Rightarrow> resolved e call)"
  by (cases "resolved e call") (simp_all add: last_resolved_def map_filter_simps Let_def)

lemma run_last_resolved:
  "run e prev calls = (case last_resolved e calls of Some emp \<Rightarrow> Some emp | None \<Rightarrow> prev)"
proof (induction calls arbitrary: prev)
  case Nil
  show ?case by (simp add: last_resolved_Nil)
next
  case (Cons call calls)
  obtain today question where call: "call = (today, question)" by (cases call)
  show ?case
    by (simp add: call Cons.IH call_effect last_resolved_Cons split: option.splits)
qed


lemma policy_words_strip:
  "list_ex (\<lambda>word. py_in word (strip s)) policy_words
     = list_ex (\<lambda>word. py_in word s) policy_words"
  by (simp add: policy_words_def py_in_strip isspace_def code_point_def)

section \<open>Pronouns as raw substrings (claim C9)\<close>




section \<open>The employee count (claim C6)\<close>

lemma retrieve_context_Inr:
  assumes "retrieve_context e today prev question = Inr r"
  shows "via r = SalaryFilter \<or> via r = CountHolidays \<or> via r = ListHolidays
         \<or> via r = UpcomingHoliday
         \<or> after_upcoming e prev question (strip (lower question)) = Inr r"
proof -
  define q where "q = strip (lower question)"
  define sal where "sal = (py_in ''salary'' q \<and> salary_search q \<noteq> None)"
  define cnt where "cnt = (py_in ''holiday'' q \<and> py_in ''how many'' q)"
  define lst where
    "lst = (py_in ''holiday'' q \<and> list_ex (\<lambda>word. py_in word q) [''list'', ''show'', ''what''])"
  have q: "strip (lower question) = q" by (simp add: q_def)
  consider (salary) "sal" | (count) "\<not> sal" "cnt" | (list) "\<not> sal" "\<not> cnt" "lst"
    | (rest) "\<not> sal" "\<not> cnt" "\<not> lst"
    by blast
  then show ?thesis
  proof cases
    case salary
    then have "retrieve_context e today prev question
                 = salary_filter e prev q (the (salary_search q))"
      unfolding sal_def by (rule rc_salary [OF q])
    with assms show ?thesis by (auto dest: salary_filter_frame)
  next
    case count
    then have "retrieve_context e today prev question
           = Inr \<lparr>returned = Some (''There are '' @ show_nat (length (holidays e))
                                    @ '' holidays in 2026.''),
                  last_employee = prev, via = CountHolidays\<rparr>"
      unfolding sal_def cnt_def by (rule rc_count [OF q])
    with assms show ?thesis by auto
  next
    case list
    then have "retrieve_context e today prev question
           = Inr \<lparr>returned = Some (''Here are the company holidays:'' @ [CHR 0x0A]
                                    @ join [CHR 0x0A] (map holiday_line (holidays e))),
                  last_employee = prev, via = ListHolidays\<rparr>"
      unfolding sal_def cnt_def lst_def by (rule rc_list [OF q])
    with assms show ?thesis by auto
  next
    case rest
    from rc_rest [OF q rest [unfolded sal_def cnt_def lst_def], of e today prev] assms
    show ?thesis
      unfolding q by (auto split: sum.splits option.splits)
  qed
qed

lemma find_None_list_ex: "(List.find P xs = None) = (\<not> list_ex P xs)"
  by (auto simp: find_None_iff list_ex_iff)

lemma after_upcoming_strict:
  assumes "after_upcoming e prev question q = Inr r" and "via r = StrictEmployeeCount"
  shows "(q = ''how many employees'' \<or> q = ''how many employees?'')
         \<and> \<not> list_ex (\<lambda>h. word_search (lower (occasion h)) q) (holidays e)
         \<and> r = \<lparr>returned = Some (''There are '' @ show_nat (length (employee_df e))
                                   @ '' employees.''),
                 last_employee = prev, via = StrictEmployeeCount\<rparr>"
proof (cases "List.find (\<lambda>h. word_search (lower (occasion h)) q) (holidays e)")
  case (Some h)
  with assms show ?thesis by (auto simp: after_upcoming_def)
next
  case None
  note no_holiday = None
  show ?thesis
  proof (cases "q = ''how many employees'' \<or> q = ''how many employees?''")
    case True
    with assms no_holiday show ?thesis
      by (auto simp: after_upcoming_def find_None_list_ex)
  next
    case False
    from after_name_match_via [of e prev question q]
    have "via (after_name_match e prev question q) \<noteq> StrictEmployeeCount" by auto
    with assms no_holiday False show ?thesis
      by (auto simp: after_upcoming_def split: sum.splits option.splits)
  qed
qed

lemma question_how_many_employees:
  assumes "q = ''how many employees'' \<or> q = ''how many employees?''"
      and "strip (lower question) = q"
  shows "retrieve_context e today prev question = after_upcoming e prev question q"
proof -
  from assms(1) have "\<not> (py_in ''salary'' q \<and> salary_search q \<noteq> None)"
    "\<not> (py_in ''holiday'' q \<and> py_in ''how many'' q)"
    "\<not> (py_in ''holiday'' q \<and> list_ex (\<lambda>word. py_in word q) [''list'', ''show'', ''what''])"
    "\<not> (py_in ''upcoming'' q \<and> py_in ''holiday'' q)"
    by (auto simp: py_in_eval)
  from rc_rest [OF assms(2) this(1,2,3)] this(4) show ?thesis by simp
qed


text \<open>
  Claim C6, as stated, fails: the employee count of section 6 answers the question
  \<^verbatim>\<open>how many employees\<close> only when section 5 did not, and section 5 answers when a
  holiday's occasion is a whole word of the question.
\<close>

theorem strict_employee_count_counterexample:
  "retrieve_context staff_day_env example_now None ''how many employees''
     = Inr \<lparr>returned = Some ''Employees is on 01-May-26 (Friday).'', last_employee = None,
            via = SpecificHolidayMatch\<rparr>"
  by (simp add: staff_day_env_def staff_day_def eval_defs)


text \<open>
  Claim C6, amended. The call returns in section 6 if and only if the lowercased,
  stripped question is exactly \<^verbatim>\<open>how many employees\<close> or \<^verbatim>\<open>how many employees?\<close> and
  no holiday's occasion occurs in it as a whole word; it then returns the number of
  rows of the employee table. A question that only contains the phrase, as
  \<^verbatim>\<open>how many employees are there in total\<close>, does not return there.
\<close>

theorem strict_employee_count:
  "(retrieve_context e today prev question = Inr r \<and> via r = StrictEmployeeCount \<longrightarrow>
      (strip (lower question) = ''how many employees''
         \<or> strip (lower question) = ''how many employees?'')
      \<and> \<not> list_ex (\<lambda>h. word_search (lower (occasion h)) (strip (lower question))) (holidays e)
      \<and> returned r = Some (''There are '' @ show_nat (length (employee_df e))
                             @ '' employees.''))
   \<and> ((strip (lower question) = ''how many employees''
         \<or> strip (lower question) = ''how many employees?'')
      \<and> \<not> list_ex (\<lambda>h. word_search (lower (occasion h)) (strip (lower question))) (holidays e)
      \<longrightarrow> retrieve_context e today prev question
            = Inr \<lparr>returned = Some (''There are '' @ show_nat (length (employee_df e))
                                     @ '' employees.''),
                   last_employee = prev, via = StrictEmployeeCount\<rparr>)"
proof (intro conjI impI)
  assume a: "retrieve_context e today prev question = Inr r \<and> via r = StrictEmployeeCount"
  with retrieve_context_Inr [of e today prev question r]
  have "after_upcoming e prev question (strip (lower question)) = Inr r" by auto
  from after_upcoming_strict [OF this] a
  show "strip (lower question) = ''how many employees''
          \<or> strip (lower question) = ''how many employees?''"
    and "\<not> list_ex (\<lambda>h. word_search (lower (occasion h)) (strip (lower question))) (holidays e)"
    and "returned r = Some (''There are '' @ show_nat (length (employee_df e))
                             @ '' employees.'')"
    by auto
next
  assume b: "(strip (lower question) = ''how many employees''
               \<or> strip (lower question) = ''how many employees?'')
             \<and> \<not> list_ex (\<lambda>h. word_search (lower (occasion h)) (strip (lower question)))
                   (holidays e)"
  then have "retrieve_context e today prev question
               = after_upcoming e prev question (strip (lower question))"
    by (intro question_how_many_employees) auto
  with b show "retrieve_context e today prev question
            = Inr \<lparr>returned = Some (''There are '' @ show_nat (length (employee_df e))
                                     @ '' employees.''),
                   last_employee = prev, via = StrictEmployeeCount\<rparr>"
    by (auto simp: after_upcoming_def find_None_list_ex [symmetric])
qed


theorem strict_employee_count_witness:
  "retrieve_context example_env example_now None '' How many Employees? ''
     = Inr \<lparr>returned = Some ''There are 2 employees.'', last_employee = None,
            via = StrictEmployeeCount\<rparr> \<and>
   retrieve_context example_env example_now None ''how many employees are there in total''
     = Inr \<lparr>returned = Some ''Information not available.'', last_employee = None,
            via = NothingMatched\<rparr>"
proof -
  have q: "strip (lower '' How many Employees? '') = ''how many employees?''"
    by (simp add: eval_defs)
  have h: "\<not> list_ex (\<lambda>h. word_search (lower (occasion h)) ''how many employees?'')
               (holidays example_env)"
    by (simp add: eval_defs)
  have n: "''There are '' @ show_nat (length (employee_df example_env)) @ '' employees.''
             = ''There are 2 employees.''"
    by (simp add: eval_defs)
  from strict_employee_count [of example_env example_now None "'' How many Employees? ''"]
    q h n
  have a: "retrieve_context example_env example_now None '' How many Employees? ''
     = Inr \<lparr>returned = Some ''There are 2 employees.'', last_employee = None,
            via = StrictEmployeeCount\<rparr>"
    by simp
  have b: "retrieve_context example_env example_now None
             ''how many employees are there in total''
     = Inr \<lparr>returned = Some ''Information not available.'', last_employee = None,
            via = NothingMatched\<rparr>"
    by (simp add: eval_defs)
  from a b show ?thesis by blast
qed


section \<open>Last write wins (claim C4)\<close>

lemma pronoun_follow_up_answer:
  assumes "retrieve_context e today prev question = Inr r" and "via r = PronounFollowUp"
  shows "\<exists>emp. prev = Some emp
           \<and> returned r = Some (employee_field_response emp (strip (lower question)))
           \<and> last_employee r = prev"
proof -
  define q where "q = strip (lower question)"
  from retrieve_context_shape [of q e today]
  consider (raise) err where "retrieve_context e today prev question = Inl err"
    | (early) answer m where "early_matcher m"
        "retrieve_context e today prev question
           = Inr \<lparr>returned = Some answer, last_employee = prev, via = m\<rparr>"
    | (resolve) emp m where "m = EmployeeIdMatch \<or> m = EmployeeNameMatch"
        "retrieve_context e today prev question
           = Inr \<lparr>returned = Some (employee_field_response emp q),
                  last_employee = Some emp, via = m\<rparr>"
    | (late) "retrieve_context e today prev question
                = Inr (after_name_match e prev question q)"
    unfolding q_def by blast
  then show ?thesis
  proof cases
    case raise
    with assms show ?thesis by simp
  next
    case early
    with assms show ?thesis by (auto simp: early_matcher_def)
  next
    case resolve
    with assms show ?thesis by auto
  next
    case late
    with assms have "via (after_name_match e prev question q) = PronounFollowUp"
      and r: "r = after_name_match e prev question q" by auto
    then show ?thesis
      unfolding r q_def [symmetric]
      by (cases prev) (auto simp: after_name_match_def split: if_splits)
  qed
qed

lemma no_policy_word_answer:
  assumes "reaches_pronoun_test e today question"
      and "\<not> list_ex (\<lambda>word. py_in word (lower question)) policy_words"
  shows "retrieve_context e today None question
           = Inr \<lparr>returned = Some ''Information not available.'', last_employee = None,
                  via = NothingMatched\<rparr>"
  using assms(2)
  by (simp add: reaches_pronoun_test_late [OF assms(1)] after_name_match_def
        policy_words_strip)


lemma not_claimed_route:
  assumes q: "strip (lower question) = q"
      and n: "\<not> claimed_before_employees e today q"
  shows "retrieve_context e today prev question
           = (case id_scan (employee_df e) (split q) of
                Inl err \<Rightarrow> Inl err
              | Inr (Some emp) \<Rightarrow>
                  Inr \<lparr>returned = Some (employee_field_response emp q),
                       last_employee = Some emp, via = EmployeeIdMatch\<rparr>
              | Inr None \<Rightarrow>
                  (case List.find (\<lambda>row. py_in (lower (Emp_Name row)) q) (employee_df e) of
                     Some row \<Rightarrow>
                       Inr \<lparr>returned = Some (employee_field_response row q),
                            last_employee = Some row, via = EmployeeNameMatch\<rparr>
                   | None \<Rightarrow> Inr (after_name_match e prev question q)))"
proof -
  from n have g: "\<not> (py_in ''salary'' q \<and> salary_search q \<noteq> None)"
    "\<not> (py_in ''holiday'' q \<and> py_in ''how many'' q)"
    "\<not> (py_in ''holiday'' q \<and> list_ex (\<lambda>word. py_in word q) [''list'', ''show'', ''what''])"
    and scan: "(if py_in ''upcoming'' q \<and> py_in ''holiday'' q
                then upcoming_scan today (holidays e) None else Inr None) = Inr None"
    and h: "List.find (\<lambda>h. word_search (lower (occasion h)) q) (holidays e) = None"
    and c: "\<not> (q = ''how many employees'' \<or> q = ''how many employees?'')"
    unfolding claimed_before_employees_def find_None_list_ex by auto
  have "retrieve_context e today prev question = after_upcoming e prev question q"
    unfolding rc_rest [OF q g] scan by simp
  also have "\<dots> = (case id_scan (employee_df e) (split q) of
                Inl err \<Rightarrow> Inl err
              | Inr (Some emp) \<Rightarrow>
                  Inr \<lparr>returned = Some (employee_field_response emp q),
                       last_employee = Some emp, via = EmployeeIdMatch\<rparr>
              | Inr None \<Rightarrow>
                  (case List.find (\<lambda>row. py_in (lower (Emp_Name row)) q) (employee_df e) of
                     Some row \<Rightarrow>
                       Inr \<lparr>returned = Some (employee_field_response row q),
                            last_employee = Some row, via = EmployeeNameMatch\<rparr>
                   | None \<Rightarrow> Inr (after_name_match e prev question q)))"
    unfolding after_upcoming_def h using c
    by (simp split: sum.splits option.splits)
  finally show ?thesis .
qed

lemma claimed_writes_nothing:
  assumes q: "strip (lower question) = q"
      and c: "claimed_before_employees e today q"
  shows "resolved e (today, question) = None"
proof -
  define sal where "sal = (py_in ''salary'' q \<and> salary_search q \<noteq> None)"
  define cnt where "cnt = (py_in ''holiday'' q \<and> py_in ''how many'' q)"
  define lst where
    "lst = (py_in ''holiday'' q \<and> list_ex (\<lambda>word. py_in word q) [''list'', ''show'', ''what''])"
  define scan where
    "scan = (if py_in ''upcoming'' q \<and> py_in ''holiday'' q
             then upcoming_scan today (holidays e) None else Inr None)"
  consider (salary) "sal" | (count) "\<not> sal" "cnt" | (list) "\<not> sal" "\<not> cnt" "lst"
    | (rest) "\<not> sal" "\<not> cnt" "\<not> lst"
    by blast
  then show ?thesis
  proof cases
    case salary
    then have "retrieve_context e today None question
                 = salary_filter e None q (the (salary_search q))"
      unfolding sal_def by (rule rc_salary [OF q])
    then show ?thesis
      by (auto simp: resolved_def split: sum.splits dest: salary_filter_frame)
  next
    case count
    from rc_count [OF q count [unfolded sal_def cnt_def], of e today None]
    show ?thesis by (simp add: resolved_def)
  next
    case list
    from rc_list [OF q list [unfolded sal_def cnt_def lst_def], of e today None]
    show ?thesis by (simp add: resolved_def)
  next
    case rest
    note rc = rc_rest [OF q rest [unfolded sal_def cnt_def lst_def], of e today None,
        folded scan_def]
    show ?thesis
    proof (cases scan)
      case (Inl err)
      then show ?thesis by (simp add: rc resolved_def)
    next
      case (Inr best)
      note scan_result = Inr
      show ?thesis
      proof (cases best)
        case (Some found)
        with scan_result show ?thesis
          by (cases found) (simp add: rc resolved_def)
      next
        case None
        with scan_result have rc': "retrieve_context e today None question
                                      = after_upcoming e None question q"
          by (simp add: rc)
        from None scan_result
        have "\<not> (py_in ''upcoming'' q \<and> py_in ''holiday'' q
                  \<and> upcoming_scan today (holidays e) None \<noteq> Inr None)"
          by (auto simp: scan_def split: if_splits)
        with c rest
        have "list_ex (\<lambda>h. word_search (lower (occasion h)) q) (holidays e)
              \<or> q = ''how many employees'' \<or> q = ''how many employees?''"
          unfolding claimed_before_employees_def sal_def cnt_def lst_def by blast
        then show ?thesis
          by (cases "List.find (\<lambda>h. word_search (lower (occasion h)) q) (holidays e)")
            (auto simp: resolved_def rc' after_upcoming_def find_None_list_ex
               split: option.splits)
      qed
    qed
  qed
qed

lemma resolved_explicit: "resolved e call = id_or_name_resolution e call"
proof -
  obtain today question where call: "call = (today, question)" by (cases call)
  define q where "q = strip (lower question)"
  have q: "strip (lower question) = q" by (simp add: q_def)
  show ?thesis
  proof (cases "claimed_before_employees e today q")
    case True
    with claimed_writes_nothing [OF q True] show ?thesis
      by (simp add: call id_or_name_resolution_def q)
  next
    case False
    from not_claimed_route [OF q False, of None] False show ?thesis
      by (simp add: call id_or_name_resolution_def q resolved_def after_name_match_pointer
            split: sum.splits option.splits)
  qed
qed

lemma last_written_resolved: "last_written e calls = last_resolved e calls"
proof -
  have "id_or_name_resolution e = resolved e"
    by (rule ext) (simp add: resolved_explicit)
  then show ?thesis by (simp add: last_written_def last_resolved_def)
qed


text \<open>
  Claim C4. A call that no earlier section claims and whose identifier scan finds a
  row writes that row to the global and answers about it (identifier match); when the
  scan finds none and a name occurs in the question, the first such row in load order
  is written (name match). After any sequence of calls that starts with an empty
  global, the global holds the employee written most recently by such a resolution
  (or nothing when no call resolved one): the last write wins, and a call that then
  returns in the pronoun section answers with the field response for that employee.
  When no call has resolved an employee, a question that comes to the pronoun test,
  such as \<^verbatim>\<open>what is his salary?\<close>, returns the fixed message (so does every such
  question without a policy word).
\<close>

theorem last_write_wins:
  "run e None calls = last_written e calls \<and>
   (\<not> claimed_before_employees e today (strip (lower question))
      \<and> id_scan (employee_df e) (split (strip (lower question))) = Inr (Some emp) \<longrightarrow>
      retrieve_context e today prev question
        = Inr \<lparr>returned = Some (employee_field_response emp (strip (lower question))),
               last_employee = Some emp, via = EmployeeIdMatch\<rparr>) \<and>
   (\<not> claimed_before_employees e today (strip (lower question))
      \<and> id_scan (employee_df e) (split (strip (lower question))) = Inr None
      \<and> List.find (\<lambda>row. py_in (lower (Emp_Name row)) (strip (lower question)))
            (employee_df e) = Some emp \<longrightarrow>
      retrieve_context e today prev question
        = Inr \<lparr>returned = Some (employee_field_response emp (strip (lower question))),
               last_employee = Some emp, via = EmployeeNameMatch\<rparr>) \<and>
   (retrieve_context e today (run e None calls) question = Inr r \<and> via r = PronounFollowUp \<longrightarrow>
      (\<exists>written. last_written e calls = Some written
          \<and> returned r = Some (employee_field_response written (strip (lower question))))) \<and>
   (last_written e calls = None \<and> reaches_pronoun_test e today ''what is his salary?'' \<longrightarrow>
      retrieve_context e today (run e None calls) ''what is his salary?''
        = Inr \<lparr>returned = Some ''Information not available.'', last_employee = None,
               via = NothingMatched\<rparr>) \<and>
   (last_written e calls = None \<and> reaches_pronoun_test e today question
      \<and> \<not> list_ex (\<lambda>word. py_in word (lower question)) policy_words \<longrightarrow>
      retrieve_context e today (run e None calls) question
        = Inr \<lparr>returned = Some ''Information not available.'', last_employee = None,
               via = NothingMatched\<rparr>)"
proof -
  have run: "run e None calls = last_written e calls"
    by (simp add: run_last_resolved last_written_resolved split: option.splits)
  have "\<not> list_ex (\<lambda>word. py_in word (lower ''what is his salary?'')) policy_words"
    by (simp add: policy_words_def lower_def lower_char_def code_point_def py_in_eval)
  then show ?thesis
    unfolding run
    by (auto dest: pronoun_follow_up_answer simp: no_policy_word_answer not_claimed_route)
qed

theorem last_write_wins_witness:
  "id_or_name_resolution example_env (example_now, ''email of asha rao'') = Some asha \<and>
   retrieve_context example_env example_now None ''email of asha rao''
     = Inr \<lparr>returned = Some (''Asha Rao'' @ [CHR 0x27] @ ''s email is asha@example.com.''),
            last_employee = Some asha, via = EmployeeNameMatch\<rparr> \<and>
   run example_env None [(example_now, ''email of asha rao'')] = Some asha \<and>
   id_or_name_resolution example_env (example_now, ''age of 102'') = Some ravi \<and>
   retrieve_context example_env example_now (Some asha) ''age of 102''
     = Inr \<lparr>returned = Some ''Ravi Kumar is 41 years old.'',
            last_employee = Some ravi, via = EmployeeIdMatch\<rparr> \<and>
   run example_env None [(example_now, ''email of asha rao''), (example_now, ''age of 102'')]
     = Some ravi \<and>
   retrieve_context example_env example_now
       (run example_env None
          [(example_now, ''email of asha rao''), (example_now, ''age of 102'')])
       ''what is his salary?''
     = Inr \<lparr>returned = Some (''Ravi Kumar'' @ [CHR 0x27] @ ''s salary is 80000.''),
            last_employee = Some ravi, via = PronounFollowUp\<rparr> \<and>
   last_written example_env [(example_now, ''list holidays'')] = None \<and>
   reaches_pronoun_test example_env example_now ''what is his salary?'' \<and>
   retrieve_context example_env example_now (run example_env None [(example_now, ''list holidays'')])
       ''what is his salary?''
     = Inr \<lparr>returned = Some ''Information not available.'', last_employee = None,
            via = NothingMatched\<rparr>"
proof -
  note ev = claimed_before_employees_def id_or_name_resolution_def eval_defs
  have q1: "strip (lower ''email of asha rao'') = ''email of asha rao''"
    and q2: "strip (lower ''age of 102'') = ''age of 102''"
    by (simp_all add: eval_defs)
  have n1: "\<not> claimed_before_employees example_env example_now ''email of asha rao''"
    and n2: "\<not> claimed_before_employees example_env example_now ''age of 102''"
    by (simp_all add: ev)
  have s1: "id_scan (employee_df example_env) (split ''email of asha rao'') = Inr None"
    and f1: "List.find (\<lambda>row. py_in (lower (Emp_Name row)) ''email of asha rao'')
               (employee_df example_env) = Some asha"
    and s2: "id_scan (employee_df example_env) (split ''age of 102'') = Inr (Some ravi)"
    by (simp_all add: eval_defs)
  have r1: "id_or_name_resolution example_env (example_now, ''email of asha rao'') = Some asha"
    by (simp add: id_or_name_resolution_def q1 n1 s1 f1)
  have r2: "id_or_name_resolution example_env (example_now, ''age of 102'') = Some ravi"
    by (simp add: id_or_name_resolution_def q2 n2 s2)
  have r3: "id_or_name_resolution example_env (example_now, ''list holidays'') = None"
    by (simp add: ev)
  have l0: "last_written example_env [(example_now, ''email of asha rao'')] = Some asha"
    by (simp add: last_written_def map_filter_simps r1)
  have l1: "last_written example_env
              [(example_now, ''email of asha rao''), (example_now, ''age of 102'')] = Some ravi"
    by (simp add: last_written_def map_filter_simps r1 r2)
  have l2: "last_written example_env [(example_now, ''list holidays'')] = None"
    by (simp add: last_written_def map_filter_simps r3)
  have p: "reaches_pronoun_test example_env example_now ''what is his salary?''"
    by (simp add: reaches_pronoun_test_def eval_defs)
  have fa: "employee_field_response asha ''email of asha rao''
              = ''Asha Rao'' @ [CHR 0x27] @ ''s email is asha@example.com.''"
    and fb: "employee_field_response ravi ''age of 102'' = ''Ravi Kumar is 41 years old.''"
    by (simp_all add: eval_defs)
  have a: "retrieve_context example_env example_now (Some ravi) ''what is his salary?''
     = Inr \<lparr>returned = Some (''Ravi Kumar'' @ [CHR 0x27] @ ''s salary is 80000.''),
            last_employee = Some ravi, via = PronounFollowUp\<rparr>"
    by (simp add: eval_defs)
  note t0 = last_write_wins [of example_env "[(example_now, ''email of asha rao'')]"
      example_now "''email of asha rao''" asha None]
  note t1 = last_write_wins [of example_env
      "[(example_now, ''email of asha rao''), (example_now, ''age of 102'')]"
      example_now "''age of 102''" ravi "Some asha"]
  note t2 = last_write_wins [of example_env "[(example_now, ''list holidays'')]"
      example_now "''what is his salary?''"]
  from t0 q1 n1 s1 f1 fa
  have w1: "retrieve_context example_env example_now None ''email of asha rao''
     = Inr \<lparr>returned = Some (''Asha Rao'' @ [CHR 0x27] @ ''s email is asha@example.com.''),
            last_employee = Some asha, via = EmployeeNameMatch\<rparr>"
    by simp
  from t0 l0 have x0: "run example_env None [(example_now, ''email of asha rao'')] = Some asha"
    by simp
  from t1 q2 n2 s2 fb
  have w2: "retrieve_context example_env example_now (Some asha) ''age of 102''
     = Inr \<lparr>returned = Some ''Ravi Kumar is 41 years old.'',
            last_employee = Some ravi, via = EmployeeIdMatch\<rparr>"
    by simp
  from t1 l1 have x1: "run example_env None
      [(example_now, ''email of asha rao''), (example_now, ''age of 102'')] = Some ravi"
    by simp
  from t2 l2 p have y: "retrieve_context example_env example_now
       (run example_env None [(example_now, ''list holidays'')]) ''what is his salary?''
     = Inr \<lparr>returned = Some ''Information not available.'', last_employee = None,
            via = NothingMatched\<rparr>"
    by blast
  from r1 w1 x0 r2 w2 x1 a l2 p y show ?thesis by simp
qed


section \<open>Letter case and outer whitespace (claim C10)\<close>

lemma after_name_match_questions:
  "(if via (after_name_match e prev question1 q) = PolicyRag
    then after_name_match e prev question1 q
           = \<lparr>returned = rag_answer (similarity_search e question1 2), last_employee = prev,
              via = PolicyRag\<rparr>
         \<and> after_name_match e prev question2 q
           = \<lparr>returned = rag_answer (similarity_search e question2 2), last_employee = prev,
              via = PolicyRag\<rparr>
    else after_name_match e prev question2 q = after_name_match e prev question1 q)"
  by (simp add: after_name_match_def)


text \<open>
  Claim C10. Two questions with the same lowercased, stripped form, asked in the same
  state, end in the same section: both raise the same error, or both return with the
  same global, and with the same answer unless they end in the policy fallback, where
  each answer is made from the search for the original, unnormalised question.
\<close>

theorem case_insensitive:
  assumes "strip (lower question1) = strip (lower question2)"
  shows "(case retrieve_context e today prev question1 of
            Inl err \<Rightarrow> retrieve_context e today prev question2 = Inl err
          | Inr r \<Rightarrow>
              if via r = PolicyRag
              then r = \<lparr>returned = rag_answer (similarity_search e question1 2),
                        last_employee = prev, via = PolicyRag\<rparr>
                   \<and> retrieve_context e today prev question2
                       = Inr \<lparr>returned = rag_answer (similarity_search e question2 2),
                              last_employee = prev, via = PolicyRag\<rparr>
              else retrieve_context e today prev question2 = Inr r)"
proof -
  define q where "q = strip (lower question1)"
  have q1: "strip (lower question1) = q" and q2: "strip (lower question2) = q"
    using assms by (simp_all add: q_def)
  from retrieve_context_shape [of q e today]
  consider (raise) err where "retrieve_context e today prev question1 = Inl err"
      "retrieve_context e today prev question2 = Inl err"
    | (early) answer m where "early_matcher m"
        "retrieve_context e today prev question1
           = Inr \<lparr>returned = Some answer, last_employee = prev, via = m\<rparr>"
        "retrieve_context e today prev question2
           = Inr \<lparr>returned = Some answer, last_employee = prev, via = m\<rparr>"
    | (resolve) emp m where "m = EmployeeIdMatch \<or> m = EmployeeNameMatch"
        "retrieve_context e today prev question1
           = Inr \<lparr>returned = Some (employee_field_response emp q),
                  last_employee = Some emp, via = m\<rparr>"
        "retrieve_context e today prev question2
           = Inr \<lparr>returned = Some (employee_field_response emp q),
                  last_employee = Some emp, via = m\<rparr>"
    | (late) "retrieve_context e today prev question1
                = Inr (after_name_match e prev question1 q)"
        "retrieve_context e today prev question2
                = Inr (after_name_match e prev question2 q)"
    using q1 q2 by metis
  then show ?thesis
  proof cases
    case raise
    then show ?thesis by simp
  next
    case early
    then show ?thesis by (auto simp: early_matcher_def)
  next
    case resolve
    then show ?thesis by auto
  next
    case late
    with after_name_match_questions [of e prev question1 q question2] show ?thesis
      by (simp split: if_splits)
  qed
qed

theorem case_insensitive_witness:
  "strip (lower ''  How many HOLIDAYS? '') = strip (lower ''how many holidays?'') \<and>
   retrieve_context example_env example_now (Some asha) ''  How many HOLIDAYS? ''
     = Inr \<lparr>returned = Some ''There are 3 holidays in 2026.'', last_employee = Some asha,
            via = CountHolidays\<rparr> \<and>
   retrieve_context example_env example_now (Some asha) ''how many holidays?''
     = Inr \<lparr>returned = Some ''There are 3 holidays in 2026.'', last_employee = Some asha,
            via = CountHolidays\<rparr> \<and>
   strip (lower ''leave rules'') = strip (lower ''LEAVE rules '') \<and>
   retrieve_context example_env example_now None ''leave rules''
     = Inr \<lparr>returned = Some ''RAG::Employees get 12 casual leaves a year.'',
            last_employee = None, via = PolicyRag\<rparr> \<and>
   retrieve_context example_env example_now None ''LEAVE rules ''
     = Inr \<lparr>returned = None, last_employee = None, via = PolicyRag\<rparr>"
proof -
  have a: "strip (lower ''  How many HOLIDAYS? '') = strip (lower ''how many holidays?'')"
    by (simp add: eval_defs)
  have b: "strip (lower ''leave rules'') = strip (lower ''LEAVE rules '')"
    by (simp add: eval_defs)
  have c: "retrieve_context example_env example_now (Some asha) ''  How many HOLIDAYS? ''
     = Inr \<lparr>returned = Some ''There are 3 holidays in 2026.'', last_employee = Some asha,
            via = CountHolidays\<rparr>"
    by (simp add: eval_defs)
  have d: "rag_answer (similarity_search example_env ''LEAVE rules '' 2) = None"
    by (simp add: eval_defs)
  from case_insensitive [OF a, of example_env example_now "Some asha"] c
  have e: "retrieve_context example_env example_now (Some asha) ''how many holidays?''
     = Inr \<lparr>returned = Some ''There are 3 holidays in 2026.'', last_employee = Some asha,
            via = CountHolidays\<rparr>"
    by simp
  have f: "retrieve_context example_env example_now None ''leave rules''
     = Inr \<lparr>returned = Some ''RAG::Employees get 12 casual leaves a year.'',
            last_employee = None, via = PolicyRag\<rparr>"
    by (simp add: eval_defs)
  from case_insensitive [OF b, of example_env example_now None] f d
  have g: "retrieve_context example_env example_now None ''LEAVE rules ''
     = Inr \<lparr>returned = None, last_employee = None, via = PolicyRag\<rparr>"
    by simp
  from a b c e f g show ?thesis by blast
qed


section \<open>The named holiday round trip (claim C7)\<close>

lemma code_point_lower_char:
  "code_point (lower_char c)
     = (let n = code_point c
        in if (65 \<le> n \<and> n \<le> 90) \<or> (192 \<le> n \<and> n \<le> 222 \<and> n \<noteq> 215) then n + 32 else n)"
  by (auto simp: lower_char_def Let_def code_point_char_of)

lemma is_word_char_lower_char: "is_word_char (lower_char c) = is_word_char c"
  unfolding is_word_char_def isalpha_char_def isdigit_char_def isdecimal_def
    code_point_lower_char Let_def
  by auto

lemma is_word_char_not_isspace: "is_word_char c \<Longrightarrow> \<not> isspace c"
  by (auto simp: is_word_char_def isalpha_char_def isdigit_char_def isdecimal_def isspace_def
        Let_def)

lemma word_search_from_here: "word_match_here w name s \<Longrightarrow> word_search_from w name s"
  by (cases s) (simp_all add: word_search_from.simps)

lemma word_search_own_name:
  assumes "name \<noteq> []" and "is_word_char (hd name)" and "is_word_char (last name)"
      and "\<not> starts_with_word_char rest"
  shows "word_search name (name @ rest)"
proof -
  from assms(1,2) have "starts_with_word_char (name @ rest)"
    by (cases name) (simp_all add: starts_with_word_char_def)
  with assms have "word_match_here False name (name @ rest)"
    by (simp add: word_match_here_def)
  then show ?thesis
    unfolding word_search_def by (rule word_search_from_here)
qed

lemma find_first:
  "list_all (\<lambda>x. \<not> P x) before \<Longrightarrow> P x \<Longrightarrow> List.find P (before @ x # after) = Some x"
  by (induction before) simp_all

lemma question_of_occasion:
  assumes "name \<noteq> []" and "is_word_char (hd name)"
  shows "strip (lower (name @ '' date?'')) = lower name @ '' date?''"
proof -
  have l: "lower (name @ '' date?'') = lower name @ '' date?''"
    by (simp add: lower_def lower_char_def code_point_def)
  from assms have "\<not> isspace (hd (lower name @ '' date?''))"
    by (cases name) (simp_all add: lower_def is_word_char_lower_char is_word_char_not_isspace)
  moreover have "\<not> isspace (last (lower name @ '' date?''))"
    by (simp add: isspace_def code_point_def)
  ultimately show ?thesis
    unfolding l by (intro strip_id) simp_all
qed


text \<open>
  Claim C7, as stated, fails: the first holiday in load order whose occasion occurs in
  the question as a whole word answers, and the occasion New Year occurs in the
  question made from the occasion Tamil New Year.
\<close>

theorem named_holiday_round_trip_counterexample:
  "tamil_new_year \<in> set (holidays example_env) \<and>
   retrieve_context example_env example_now None (occasion tamil_new_year @ '' date?'')
     = Inr \<lparr>returned = Some ''New Year is on 01-Jan-26 (Thursday).'', last_employee = None,
            via = SpecificHolidayMatch\<rparr> \<and>
   \<not> py_in (date tamil_new_year) ''New Year is on 01-Jan-26 (Thursday).'' \<and>
   \<not> py_in (day tamil_new_year) ''New Year is on 01-Jan-26 (Thursday).''"
  by (simp add: eval_defs)


text \<open>
  Claim C7, amended. For every loaded holiday whose occasion starts and ends with a
  word character: when the question made of the occasion and \<^verbatim>\<open> date?\<close> is claimed by
  none of the sections 1 to 4, and no holiday loaded before it has an occasion that
  occurs in the question as a whole word, the call returns the sentence of that
  holiday, which contains its date and its weekday.
\<close>

theorem named_holiday_round_trip:
  assumes "holidays e = before @ h # after"
      and "occasion h \<noteq> []"
      and "is_word_char (hd (occasion h))" and "is_word_char (last (occasion h))"
      and "q = lower (occasion h) @ '' date?''"
      and "list_all (\<lambda>h'. \<not> word_search (lower (occasion h')) q) before"
      and "\<not> (py_in ''salary'' q \<and> salary_search q \<noteq> None)"
      and "\<not> (py_in ''holiday'' q
               \<and> (py_in ''how many'' q \<or> list_ex (\<lambda>word. py_in word q) [''list'', ''show'', ''what'']
                  \<or> py_in ''upcoming'' q))"
  shows "retrieve_context e today prev (occasion h @ '' date?'')
           = Inr \<lparr>returned = Some (occasion h @ '' is on '' @ date h @ '' ('' @ day h @ '').''),
                  last_employee = prev, via = SpecificHolidayMatch\<rparr>
         \<and> py_in (date h) (occasion h @ '' is on '' @ date h @ '' ('' @ day h @ '').'')
         \<and> py_in (day h) (occasion h @ '' is on '' @ date h @ '' ('' @ day h @ '').'')"
proof -
  have q: "strip (lower (occasion h @ '' date?'')) = q"
    using assms(2,3,5) by (simp add: question_of_occasion)
  have name: "lower (occasion h) \<noteq> []" "is_word_char (hd (lower (occasion h)))"
    "is_word_char (last (lower (occasion h)))"
    using assms(2,3,4)
    by (simp_all add: lower_def hd_map last_map is_word_char_lower_char)
  have "\<not> starts_with_word_char '' date?''"
    by (simp add: starts_with_word_char_def is_word_char_def isalpha_char_def isdigit_char_def
          isdecimal_def code_point_def)
  with name have "word_search (lower (occasion h)) q"
    unfolding assms(5) by (intro word_search_own_name)
  with assms(1,6)
  have found: "List.find (\<lambda>h'. word_search (lower (occasion h')) q) (holidays e) = Some h"
    by (simp add: find_first)
  from assms(8) have g: "\<not> (py_in ''holiday'' q \<and> py_in ''how many'' q)"
    "\<not> (py_in ''holiday'' q \<and> list_ex (\<lambda>word. py_in word q) [''list'', ''show'', ''what''])"
    "\<not> (py_in ''upcoming'' q \<and> py_in ''holiday'' q)"
    by auto
  from rc_rest [OF q assms(7) g(1,2), of e today prev] g(3) found
  have "retrieve_context e today prev (occasion h @ '' date?'')
           = Inr \<lparr>returned = Some (occasion h @ '' is on '' @ date h @ '' ('' @ day h @ '').''),
                  last_employee = prev, via = SpecificHolidayMatch\<rparr>"
    by (simp add: after_upcoming_def)
  moreover have "py_in (date h) ((occasion h @ '' is on '') @ date h @ ('' ('' @ day h @ '').''))"
    by (rule py_in_appendI)
  moreover
  have "py_in (day h) ((occasion h @ '' is on '' @ date h @ '' ('') @ day h @ '').'')"
    by (rule py_in_appendI)
  ultimately show ?thesis by simp
qed

theorem named_holiday_round_trip_witness:
  "retrieve_context example_env example_now None ''Republic Day date?''
     = Inr \<lparr>returned = Some ''Republic Day is on 26-Jan-26 (Monday).'', last_employee = None,
            via = SpecificHolidayMatch\<rparr> \<and>
   py_in ''26-Jan-26'' ''Republic Day is on 26-Jan-26 (Monday).'' \<and>
   py_in ''Monday'' ''Republic Day is on 26-Jan-26 (Monday).''"
proof -
  have a: "holidays example_env = [new_year] @ republic_day # [tamil_new_year]"
    by (simp add: example_env_def)
  have b: "occasion republic_day \<noteq> []" "is_word_char (hd (occasion republic_day))"
    "is_word_char (last (occasion republic_day))"
    by (simp_all add: eval_defs)
  have c: "''republic day date?'' = lower (occasion republic_day) @ '' date?''"
    by (simp add: eval_defs)
  have d: "list_all (\<lambda>h'. \<not> word_search (lower (occasion h')) ''republic day date?'')
             [new_year]"
    by (simp add: eval_defs)
  have e: "\<not> (py_in ''salary'' ''republic day date?''
               \<and> salary_search ''republic day date?'' \<noteq> None)"
    by (simp add: eval_defs)
  have f: "\<not> (py_in ''holiday'' ''republic day date?''
               \<and> (py_in ''how many'' ''republic day date?''
                  \<or> list_ex (\<lambda>word. py_in word ''republic day date?'')
                       [''list'', ''show'', ''what'']
                  \<or> py_in ''upcoming'' ''republic day date?''))"
    by (simp add: eval_defs)
  from named_holiday_round_trip [OF a b c d e f, of example_now None]
  show ?thesis by (simp add: republic_day_def)
qed


section \<open>The upcoming holiday on the day of a holiday (claim C2)\<close>

text \<open>
  Claim C2. The scan compares the date of each holiday, parsed to midnight, with
  \<^verbatim>\<open>datetime.today()\<close>, which carries the time of day: on the morning of Republic
  Day the holiday dated that day is not on or after the current moment, and the call
  answers with the next one, although the holiday's date is the current date.
\<close>

theorem upcoming_holiday_today:
  "strptime (date republic_day) = Inr (2026, 1, 26, 0, 0, 0, 0) \<and>
   example_now = (2026, 1, 26, 9, 30, 0, 0) \<and>
   republic_day \<in> set (holidays example_env) \<and>
   retrieve_context example_env example_now None ''upcoming holiday''
     = Inr \<lparr>returned = Some ''Upcoming holiday is Tamil New Year on 14-Apr-26 (Tuesday).'',
            last_employee = None, via = UpcomingHoliday\<rparr>"
  by (simp add: eval_defs)


section \<open>The salary filter (claim C3)\<close>

lemma decimal_dropWhile: "list_all isdecimal ds \<Longrightarrow> dropWhile isspace ds = ds"
  by (cases ds) (simp_all add: isdecimal_not_isspace)

lemma decimal_takeWhile: "list_all isdecimal ds \<Longrightarrow> takeWhile isdecimal ds = ds"
  by (simp add: list_all_iff)

lemma decimal_no_prefix:
  "list_all isdecimal ds \<Longrightarrow> \<not> isdecimal a \<Longrightarrow> \<not> prefix (a # as) ds"
  by (cases ds) auto

lemma decimal_no_word:
  assumes "list_all isdecimal ds" and "\<not> isdecimal a"
  shows "\<not> py_in (a # as) ds"
  using assms(1)
proof (induction ds)
  case Nil
  show ?case by (simp add: py_in_eval)
next
  case (Cons d ds)
  with assms(2) show ?case by (auto simp: py_in_eval)
qed

lemma first_match_decimal:
  "list_all isdecimal ds \<Longrightarrow> first_match (salary_match_here ds) salary_conditions = None"
  by (simp add: salary_conditions_def salary_match_here_def decimal_no_prefix isdecimal_def
        code_point_def)

lemma salary_search_decimal: "list_all isdecimal ds \<Longrightarrow> salary_search ds = None"
  by (induction ds) (simp_all add: first_match_decimal)

lemma normal_form_digits:
  assumes "pre \<noteq> []" and "\<not> isspace (hd pre)" and "lower pre = pre"
      and "list_all isdecimal ds" and "ds \<noteq> []"
  shows "strip (lower (pre @ ds)) = pre @ ds"
proof -
  have l: "lower (pre @ ds) = pre @ ds"
    using assms(3,4) by (simp add: lower_append lower_decimal)
  from assms(4,5) have "isdecimal (last ds)"
    by (simp add: list_all_iff)
  then have "\<not> isspace (last (pre @ ds))"
    using assms(5) by (simp add: isdecimal_not_isspace)
  moreover have "\<not> isspace (hd (pre @ ds))"
    using assms(1,2) by simp
  ultimately show ?thesis
    unfolding l using assms(1) by (intro strip_id) simp_all
qed

lemma salary_search_questions:
  assumes "list_all isdecimal ds" and "ds \<noteq> []"
  shows "salary_search (''salary greater than '' @ ds) = Some (''greater than'', ds)"
    and "salary_search (''salary less than '' @ ds) = Some (''less than'', ds)"
    and "salary_search (''list salary greater than '' @ ds) = Some (''greater than'', ds)"
    and "salary_search (''list salary less than '' @ ds) = Some (''less than'', ds)"
  using assms
  by (simp_all add: salary_conditions_def salary_match_here_def decimal_dropWhile
        decimal_takeWhile isspace_def code_point_def)

lemma list_in_questions:
  assumes "list_all isdecimal ds"
  shows "\<not> py_in ''list'' (''salary greater than '' @ ds)"
    and "\<not> py_in ''list'' (''salary less than '' @ ds)"
    and "py_in ''list'' (''list salary greater than '' @ ds)"
    and "py_in ''list'' (''list salary less than '' @ ds)"
    and "py_in ''salary'' (''salary greater than '' @ ds)"
    and "py_in ''salary'' (''salary less than '' @ ds)"
    and "py_in ''salary'' (''list salary greater than '' @ ds)"
    and "py_in ''salary'' (''list salary less than '' @ ds)"
proof -
  have d: "\<not> py_in ''list'' ds" "\<not> prefix ''list'' ds" "\<not> prefix ''ist'' ds"
    "\<not> prefix ''st'' ds" "\<not> prefix ''t'' ds"
    using assms
    by (simp_all add: decimal_no_word decimal_no_prefix isdecimal_def code_point_def)
  show "\<not> py_in ''list'' (''salary greater than '' @ ds)"
    and "\<not> py_in ''list'' (''salary less than '' @ ds)"
    and "py_in ''list'' (''list salary greater than '' @ ds)"
    and "py_in ''list'' (''list salary less than '' @ ds)"
    and "py_in ''salary'' (''salary greater than '' @ ds)"
    and "py_in ''salary'' (''salary less than '' @ ds)"
    and "py_in ''salary'' (''list salary greater than '' @ ds)"
    and "py_in ''salary'' (''list salary less than '' @ ds)"
    using d by (simp_all add: py_in_eval)
qed

lemma salary_question_route:
  assumes ds: "list_all isdecimal ds" "ds \<noteq> []"
      and pre: "pre \<noteq> []" "\<not> isspace (hd pre)" "lower pre = pre"
      and s: "py_in ''salary'' (pre @ ds)" "salary_search (pre @ ds) = Some (cond, ds)"
  shows "retrieve_context e today prev (pre @ ds) = salary_filter e prev (pre @ ds) (cond, ds)"
proof -
  have q: "strip (lower (pre @ ds)) = pre @ ds"
    using pre ds by (rule normal_form_digits)
  from s have "py_in ''salary'' (pre @ ds) \<and> salary_search (pre @ ds) \<noteq> None" by simp
  from rc_salary [OF q this, of e today prev] s(2) show ?thesis by simp
qed


text \<open>
  Claim C3, as stated, fails: the salary pattern reads digits only, so a negative
  threshold is not matched and the question falls through to the last line.
\<close>

theorem salary_filter_counts_counterexample:
  "show_int (- 5) = ''-5'' \<and>
   length (filter (\<lambda>row. Salary row > - 5) (employee_df example_env)) = 2 \<and>
   retrieve_context example_env example_now None (''salary greater than '' @ show_int (- 5))
     = Inr \<lparr>returned = Some ''Information not available.'', last_employee = None,
            via = NothingMatched\<rparr>"
  by (simp add: eval_defs)


text \<open>
  Claim C3, amended. For every threshold \<open>T\<close> that is a natural number of at most 4300
  decimal digits (more digits make \<^verbatim>\<open>int\<close> raise), the question
  \<^verbatim>\<open>salary greater than T\<close> returns the sentence with the number of employees whose
  salary is strictly greater than \<open>T\<close>, and \<^verbatim>\<open>salary less than T\<close> the number of those
  strictly below; with \<^verbatim>\<open>list\<close> in front the call returns the lines
  \<^verbatim>\<open>Name - Salary\<close> of exactly those employees, each once, in load order, or the
  fixed message when there is none.
\<close>

theorem salary_filter_counts:
  assumes "length (show_nat T) \<le> int_max_str_digits"
  shows "retrieve_context e today prev (''salary greater than '' @ show_nat T)
           = Inr \<lparr>returned =
                    Some (show_nat (length (filter (\<lambda>row. Salary row > int T)
                                             (employee_df e)))
                          @ '' employees match the salary condition.''),
                  last_employee = prev, via = SalaryFilter\<rparr>
         \<and> retrieve_context e today prev (''salary less than '' @ show_nat T)
           = Inr \<lparr>returned =
                    Some (show_nat (length (filter (\<lambda>row. Salary row < int T)
                                             (employee_df e)))
                          @ '' employees match the salary condition.''),
                  last_employee = prev, via = SalaryFilter\<rparr>
         \<and> retrieve_context e today prev (''list salary greater than '' @ show_nat T)
           = Inr \<lparr>returned =
                    Some (if filter (\<lambda>row. Salary row > int T) (employee_df e) = []
                          then ''No employees found.''
                          else ''Employees matching salary condition:'' @ [CHR 0x0A]
                               @ join [CHR 0x0A]
                                   (map (\<lambda>row. Emp_Name row @ '' - '' @ show_int (Salary row))
                                      (filter (\<lambda>row. Salary row > int T) (employee_df e)))),
                  last_employee = prev, via = SalaryFilter\<rparr>
         \<and> retrieve_context e today prev (''list salary less than '' @ show_nat T)
           = Inr \<lparr>returned =
                    Some (if filter (\<lambda>row. Salary row < int T) (employee_df e) = []
                          then ''No employees found.''
                          else ''Employees matching salary condition:'' @ [CHR 0x0A]
                               @ join [CHR 0x0A]
                                   (map (\<lambda>row. Emp_Name row @ '' - '' @ show_int (Salary row))
                                      (filter (\<lambda>row. Salary row < int T) (employee_df e)))),
                  last_employee = prev, via = SalaryFilter\<rparr>"
proof -
  note ds = show_nat_decimal [of T] show_nat_not_Nil [of T]
  note i = py_int_show_nat [OF assms]
  have sl: "salary_line = (\<lambda>row. Emp_Name row @ '' - '' @ show_int (Salary row))"
    by (rule ext) (simp add: salary_line_def)
  define q1 where "q1 = ''salary greater than '' @ show_nat T"
  define q2 where "q2 = ''salary less than '' @ show_nat T"
  define q3 where "q3 = ''list salary greater than '' @ show_nat T"
  define q4 where "q4 = ''list salary less than '' @ show_nat T"
  note l = list_in_questions [OF ds(1), folded q1_def q2_def q3_def q4_def]
  have a: "retrieve_context e today prev (''salary greater than '' @ show_nat T)
             = salary_filter e prev q1 (''greater than'', show_nat T)"
    unfolding q1_def
    by (rule salary_question_route [OF ds _ _ _ list_in_questions(5) [OF ds(1)]
          salary_search_questions(1) [OF ds]])
      (simp_all add: lower_def lower_char_def isspace_def code_point_def)
  have b: "retrieve_context e today prev (''salary less than '' @ show_nat T)
             = salary_filter e prev q2 (''less than'', show_nat T)"
    unfolding q2_def
    by (rule salary_question_route [OF ds _ _ _ list_in_questions(6) [OF ds(1)]
          salary_search_questions(2) [OF ds]])
      (simp_all add: lower_def lower_char_def isspace_def code_point_def)
  have c: "retrieve_context e today prev (''list salary greater than '' @ show_nat T)
             = salary_filter e prev q3 (''greater than'', show_nat T)"
    unfolding q3_def
    by (rule salary_question_route [OF ds _ _ _ list_in_questions(7) [OF ds(1)]
          salary_search_questions(3) [OF ds]])
      (simp_all add: lower_def lower_char_def isspace_def code_point_def)
  have d: "retrieve_context e today prev (''list salary less than '' @ show_nat T)
             = salary_filter e prev q4 (''less than'', show_nat T)"
    unfolding q4_def
    by (rule salary_question_route [OF ds _ _ _ list_in_questions(8) [OF ds(1)]
          salary_search_questions(4) [OF ds]])
      (simp_all add: lower_def lower_char_def isspace_def code_point_def)
  show ?thesis
    unfolding a b c d
    by (simp add: salary_filter_def i Let_def sl l)
qed

theorem salary_filter_counts_witness:
  "length (show_nat 60000) \<le> int_max_str_digits \<and>
   retrieve_context example_env example_now None ''salary greater than 60000''
     = Inr \<lparr>returned = Some ''1 employees match the salary condition.'',
            last_employee = None, via = SalaryFilter\<rparr> \<and>
   retrieve_context example_env example_now None ''salary less than 60000''
     = Inr \<lparr>returned = Some ''1 employees match the salary condition.'',
            last_employee = None, via = SalaryFilter\<rparr> \<and>
   retrieve_context example_env example_now None ''list salary greater than 60000''
     = Inr \<lparr>returned = Some (''Employees matching salary condition:'' @ [CHR 0x0A]
                              @ ''Ravi Kumar - 80000''),
            last_employee = None, via = SalaryFilter\<rparr> \<and>
   retrieve_context example_env example_now None ''list salary less than 60000''
     = Inr \<lparr>returned = Some (''Employees matching salary condition:'' @ [CHR 0x0A]
                              @ ''Asha Rao - 50000''),
            last_employee = None, via = SalaryFilter\<rparr> \<and>
   length (show_nat 90000) \<le> int_max_str_digits \<and>
   retrieve_context example_env example_now None ''list salary greater than 90000''
     = Inr \<lparr>returned = Some ''No employees found.'', last_employee = None,
            via = SalaryFilter\<rparr>"
proof -
  have n: "show_nat 60000 = ''60000''" "show_nat 90000 = ''90000''"
    by (simp_all add: eval_defs)
  have h: "length (show_nat 60000) \<le> int_max_str_digits"
    "length (show_nat 90000) \<le> int_max_str_digits"
    by (simp_all add: n int_max_str_digits_def)
  from salary_filter_counts [OF h(1), of example_env example_now None]
    salary_filter_counts [OF h(2), of example_env example_now None] h
  show ?thesis
    by (simp add: n eval_defs)
qed

section \<open>The router returns (claim C1)\<close>

text \<open>
  The two places where a call can raise are \<^verbatim>\<open>int\<close> (on the digits of the salary
  pattern and on a word that \<^verbatim>\<open>isdigit\<close> accepts) and \<^verbatim>\<open>strptime\<close> (on the date of a
  holiday). The digits of the salary pattern are decimal, and no longer than the
  question.
\<close>

lemma first_match_Some:
  "first_match f xs = Some y \<Longrightarrow> \<exists>x. x \<in> set xs \<and> f x = Some y"
  by (induction xs) (auto split: option.splits)

lemma salary_match_here_digits:
  assumes "salary_match_here s cond = Some (c, ds)"
  shows "ds \<noteq> [] \<and> list_all isdecimal ds \<and> length ds \<le> length s"
proof -
  from assms have ds: "ds = takeWhile isdecimal (dropWhile isspace (drop (length cond) s))"
    and ne: "ds \<noteq> []"
    by (auto simp: salary_match_here_def Let_def split: if_splits)
  have "length ds \<le> length (dropWhile isspace (drop (length cond) s))"
    unfolding ds by (rule length_takeWhile_le)
  also have "\<dots> \<le> length (drop (length cond) s)"
    by (rule length_dropWhile_le)
  also have "\<dots> \<le> length s" by simp
  finally have "length ds \<le> length s" .
  moreover have "list_all isdecimal ds"
    unfolding ds list_all_iff by (auto dest: set_takeWhileD)
  ultimately show ?thesis using ne by simp
qed

lemma salary_search_digits:
  "salary_search q = Some (c, ds) \<Longrightarrow>
     ds \<noteq> [] \<and> list_all isdecimal ds \<and> length ds \<le> length q"
proof (induction q)
  case Nil
  then obtain x where "salary_match_here [] x = Some (c, ds)"
    by (auto dest: first_match_Some)
  then show ?case by (rule salary_match_here_digits)
next
  case (Cons a q)
  show ?case
  proof (cases "first_match (salary_match_here (a # q)) salary_conditions")
    case None
    with Cons show ?thesis by auto
  next
    case (Some m)
    with Cons.prems have "first_match (salary_match_here (a # q)) salary_conditions
                            = Some (c, ds)"
      by simp
    then obtain x where "salary_match_here (a # q) x = Some (c, ds)"
      by (auto dest: first_match_Some)
    then show ?thesis by (rule salary_match_here_digits)
  qed
qed

lemma py_int_decimal:
  "w \<noteq> [] \<Longrightarrow> list_all isdecimal w \<Longrightarrow> length w \<le> int_max_str_digits
     \<Longrightarrow> \<exists>n. py_int w = Inr n"
  by (simp add: py_int_def)

lemma upcoming_scan_returns:
  "list_all (\<lambda>h. strptime (date h) \<noteq> Inl ValueError) hs
     \<Longrightarrow> \<exists>found. upcoming_scan today hs best = Inr found"
proof (induction hs arbitrary: best)
  case Nil
  show ?case by simp
next
  case (Cons h hs)
  then obtain d where "strptime (date h) = Inr d"
    by (cases "strptime (date h)") (auto, metis error.exhaust)
  with Cons show ?case by simp
qed

lemma split_aux_words:
  "w' \<in> set (split_aux w s) \<Longrightarrow>
     set w' \<subseteq> set w \<union> set s \<and> length w' \<le> length w + length s"
proof (induction s arbitrary: w)
  case Nil
  then show ?case by (auto split: if_splits)
next
  case (Cons c s)
  show ?case
  proof (cases "isspace c")
    case True
    with Cons.prems have "w' = rev w \<or> w' \<in> set (split_aux [] s)"
      by (auto split: if_splits)
    then show ?thesis
    proof
      assume "w' = rev w"
      then show ?thesis by auto
    next
      assume "w' \<in> set (split_aux [] s)"
      from Cons.IH [OF this] show ?thesis by auto
    qed
  next
    case False
    with Cons.prems have "w' \<in> set (split_aux (c # w) s)" by simp
    from Cons.IH [OF this] show ?thesis by auto
  qed
qed

lemma split_words:
  "w \<in> set (split s) \<Longrightarrow> set w \<subseteq> set s \<and> length w \<le> length s"
  using split_aux_words [of w "[]" s] by (simp add: split_def)

lemma id_scan_returns:
  "(\<And>w. w \<in> set ws \<Longrightarrow> isdigit w \<Longrightarrow> \<exists>n. py_int w = Inr n)
     \<Longrightarrow> \<exists>found. id_scan df ws = Inr found"
proof (induction ws)
  case Nil
  show ?case by simp
next
  case (Cons w ws)
  from Cons.prems have rest: "\<exists>found. id_scan df ws = Inr found"
    by (intro Cons.IH) auto
  show ?case
  proof (cases "isdigit w")
    case True
    with Cons.prems obtain n where "py_int w = Inr n" by auto
    with True rest show ?thesis by (auto split: option.splits)
  next
    case False
    with rest show ?thesis by simp
  qed
qed

lemma plain_digits_lower_char:
  assumes "isdigit_char c \<longrightarrow> isdecimal c"
  shows "isdigit_char (lower_char c) \<longrightarrow> isdecimal (lower_char c)"
  using assms
  unfolding isdigit_char_def isdecimal_def code_point_lower_char Let_def
  by auto

lemma plain_digits_normal:
  assumes "plain_digits question" and "c \<in> set (strip (lower question))"
  shows "isdigit_char c \<longrightarrow> isdecimal c"
proof -
  from assms(2) set_strip have "c \<in> set (lower question)" by blast
  then obtain c' where "c' \<in> set question" and c: "c = lower_char c'"
    by (auto simp: lower_def)
  with assms(1) have "isdigit_char c' \<longrightarrow> isdecimal c'"
    by (simp add: plain_digits_def list_all_iff)
  then show ?thesis unfolding c by (rule plain_digits_lower_char)
qed

lemma id_scan_question_returns:
  assumes "plain_digits question" and "length question \<le> int_max_str_digits"
  shows "\<exists>found. id_scan df (split (strip (lower question))) = Inr found"
proof (rule id_scan_returns)
  fix w
  assume w: "w \<in> set (split (strip (lower question)))" and d: "isdigit w"
  from split_words [OF w]
  have sub: "set w \<subseteq> set (strip (lower question))"
    and len: "length w \<le> length (strip (lower question))"
    by simp_all
  from len length_strip [of "lower question"] assms(2)
  have "length w \<le> int_max_str_digits" by (simp add: length_lower)
  moreover from d sub plain_digits_normal [OF assms(1)] have "list_all isdecimal w"
    by (auto simp: isdigit_def list_all_iff)
  moreover from d have "w \<noteq> []" by (simp add: isdigit_def)
  ultimately show "\<exists>n. py_int w = Inr n" by (intro py_int_decimal)
qed

lemma retrieve_context_returns:
  assumes "plain_digits question" and "length question \<le> int_max_str_digits"
      and "list_all (\<lambda>h. strptime (date h) \<noteq> Inl ValueError) (holidays e)"
  shows "\<exists>r. retrieve_context e today prev question = Inr r"
proof -
  define q where "q = strip (lower question)"
  have q: "strip (lower question) = q" by (simp add: q_def)
  have len: "length q \<le> int_max_str_digits"
    using length_strip [of "lower question"] assms(2) by (simp add: q_def length_lower)
  define sal where "sal = (py_in ''salary'' q \<and> salary_search q \<noteq> None)"
  define cnt where "cnt = (py_in ''holiday'' q \<and> py_in ''how many'' q)"
  define lst where
    "lst = (py_in ''holiday'' q \<and> list_ex (\<lambda>word. py_in word q) [''list'', ''show'', ''what''])"
  define scan where
    "scan = (if py_in ''upcoming'' q \<and> py_in ''holiday'' q
             then upcoming_scan today (holidays e) None else Inr None)"
  consider (salary) "sal" | (count) "\<not> sal" "cnt" | (list) "\<not> sal" "\<not> cnt" "lst"
    | (rest) "\<not> sal" "\<not> cnt" "\<not> lst"
    by blast
  then show ?thesis
  proof cases
    case salary
    then obtain c ds where m: "salary_search q = Some (c, ds)"
      by (auto simp: sal_def)
    from salary_search_digits [OF m] len obtain n where "py_int ds = Inr n"
      using py_int_decimal [of ds] by auto
    with m rc_salary [OF q salary [unfolded sal_def], of e today prev] show ?thesis
      by (simp add: salary_filter_def Let_def)
  next
    case count
    from rc_count [OF q count [unfolded sal_def cnt_def], of e today prev]
    show ?thesis by simp
  next
    case list
    from rc_list [OF q list [unfolded sal_def cnt_def lst_def], of e today prev]
    show ?thesis by simp
  next
    case rest
    note rc = rc_rest [OF q rest [unfolded sal_def cnt_def lst_def], of e today prev,
        folded scan_def]
    have "\<exists>best. scan = Inr best"
      using upcoming_scan_returns [OF assms(3), of today None]
      by (cases "py_in ''upcoming'' q \<and> py_in ''holiday'' q") (simp_all add: scan_def)
    then obtain best where scan_result: "scan = Inr best" ..
    show ?thesis
    proof (cases best)
      case (Some found)
      with scan_result show ?thesis by (cases found) (simp add: rc)
    next
      case None
      from id_scan_question_returns [OF assms(1,2), of "employee_df e"]
      obtain found where "id_scan (employee_df e) (split q) = Inr found"
        by (auto simp: q)
      with None scan_result show ?thesis
        by (simp add: rc after_upcoming_def split: option.splits)
    qed
  qed
qed

text \<open>
  The shape of one call, and what it returns on each of the paths that return.
\<close>

lemma rag_answer_marker: "rag_answer docs \<noteq> Some ''RAG::''"
  by (simp add: rag_answer_def Let_def)

lemma rag_answer_None: "rag_answer docs = None \<longleftrightarrow> join [CHR 0x0A] docs = []"
  by (simp add: rag_answer_def Let_def)

lemma retrieve_context_shape_at:
  "(\<exists>err. retrieve_context e today prev question = Inl err)
   \<or> (\<exists>answer m. early_matcher m \<and>
         retrieve_context e today prev question
           = Inr \<lparr>returned = Some answer, last_employee = prev, via = m\<rparr>)
   \<or> (\<exists>emp m. (m = EmployeeIdMatch \<or> m = EmployeeNameMatch) \<and>
         retrieve_context e today prev question
           = Inr \<lparr>returned = Some (employee_field_response emp (strip (lower question))),
                  last_employee = Some emp, via = m\<rparr>)
   \<or> retrieve_context e today prev question
         = Inr (after_name_match e prev question (strip (lower question)))"
  (is "?A \<or> ?B \<or> ?C \<or> ?D")
proof -
  define q where "q = strip (lower question)"
  have q: "strip (lower question) = q" by (simp add: q_def)
  note shape = retrieve_context_shape [of q e today]
  show ?thesis
  proof (rule disjE [OF shape])
    assume "\<exists>err. \<forall>prev question. strip (lower question) = q \<longrightarrow>
              retrieve_context e today prev question = Inl err"
    then obtain err where "\<forall>prev question. strip (lower question) = q \<longrightarrow>
              retrieve_context e today prev question = Inl err" ..
    then have "retrieve_context e today prev question = Inl err"
      using q by simp
    then have ?A ..
    then show ?thesis ..
  next
    assume rest: "(\<exists>answer m. early_matcher m \<and>
         (\<forall>prev question. strip (lower question) = q \<longrightarrow>
            retrieve_context e today prev question
              = Inr \<lparr>returned = Some answer, last_employee = prev, via = m\<rparr>))
   \<or> (\<exists>emp m. (m = EmployeeIdMatch \<or> m = EmployeeNameMatch) \<and> emp \<in> set (employee_df e) \<and>
         (\<forall>prev question. strip (lower question) = q \<longrightarrow>
            retrieve_context e today prev question
              = Inr \<lparr>returned = Some (employee_field_response emp q),
                     last_employee = Some emp, via = m\<rparr>))
   \<or> (\<forall>prev question. strip (lower question) = q \<longrightarrow>
          retrieve_context e today prev question = Inr (after_name_match e prev question q))"
    show ?thesis
    proof (rule disjE [OF rest])
      assume "\<exists>answer m. early_matcher m \<and>
         (\<forall>prev question. strip (lower question) = q \<longrightarrow>
            retrieve_context e today prev question
              = Inr \<lparr>returned = Some answer, last_employee = prev, via = m\<rparr>)"
      then obtain answer m where m: "early_matcher m"
        and "\<forall>prev question. strip (lower question) = q \<longrightarrow>
            retrieve_context e today prev question
              = Inr \<lparr>returned = Some answer, last_employee = prev, via = m\<rparr>"
        by (elim exE conjE)
      then have "retrieve_context e today prev question
              = Inr \<lparr>returned = Some answer, last_employee = prev, via = m\<rparr>"
        using q by simp
      with m have ?B by (intro exI [of _ answer] exI [of _ m] conjI)
      then show ?thesis by (intro disjI2 disjI1)
    next
      assume rest2: "(\<exists>emp m. (m = EmployeeIdMatch \<or> m = EmployeeNameMatch) \<and> emp \<in> set (employee_df e) \<and>
         (\<forall>prev question. strip (lower question) = q \<longrightarrow>
            retrieve_context e today prev question
              = Inr \<lparr>returned = Some (employee_field_response emp q),
                     last_employee = Some emp, via = m\<rparr>))
       \<or> (\<forall>prev question. strip (lower question) = q \<longrightarrow>
          retrieve_context e today prev question = Inr (after_name_match e prev question q))"
      show ?thesis
      proof (rule disjE [OF rest2])
        assume "\<exists>emp m. (m = EmployeeIdMatch \<or> m = EmployeeNameMatch) \<and> emp \<in> set (employee_df e) \<and>
         (\<forall>prev question. strip (lower question) = q \<longrightarrow>
            retrieve_context e today prev question
              = Inr \<lparr>returned = Some (employee_field_response emp q),
                     last_employee = Some emp, via = m\<rparr>)"
        then obtain emp m where m: "m = EmployeeIdMatch \<or> m = EmployeeNameMatch"
          and "\<forall>prev question. strip (lower question) = q \<longrightarrow>
            retrieve_context e today prev question
              = Inr \<lparr>returned = Some (employee_field_response emp q),
                     last_employee = Some emp, via = m\<rparr>"
          by (elim exE conjE)
        then have "retrieve_context e today prev question
              = Inr \<lparr>returned = Some (employee_field_response emp (strip (lower question))),
                     last_employee = Some emp, via = m\<rparr>"
          using q by simp
        with m have ?C by (intro exI [of _ emp] exI [of _ m] conjI)
        then show ?thesis by (intro disjI2 disjI1)
      next
        assume "\<forall>prev question. strip (lower question) = q \<longrightarrow>
          retrieve_context e today prev question = Inr (after_name_match e prev question q)"
        then have ?D using q by simp
        then show ?thesis by (intro disjI2)
      qed
    qed
  qed
qed

lemma late_answer:
  "(via (after_name_match e prev question q) = PolicyRag \<longrightarrow>
        returned (after_name_match e prev question q)
          = rag_answer (similarity_search e question 2) \<and>
        returned (after_name_match e prev question q) \<noteq> Some ''RAG::'') \<and>
     (returned (after_name_match e prev question q) = None \<longleftrightarrow>
        via (after_name_match e prev question q) = PolicyRag
        \<and> join [CHR 0x0A] (similarity_search e question 2) = []) \<and>
     (via (after_name_match e prev question q) = NothingMatched \<longrightarrow>
        returned (after_name_match e prev question q) = Some ''Information not available.'')"
proof -
  define a where "a = (prev \<noteq> None \<and> list_ex (\<lambda>word. py_in word q) pronouns)"
  define b where "b = list_ex (\<lambda>word. py_in word q) policy_words"
  define docs where "docs = similarity_search e question 2"
  have r: "after_name_match e prev question q =
     (if a
      then \<lparr>returned = Some (employee_field_response (the prev) q), last_employee = prev,
            via = PronounFollowUp\<rparr>
      else if b
      then \<lparr>returned = rag_answer docs, last_employee = prev,
            via = PolicyRag\<rparr>
      else \<lparr>returned = Some ''Information not available.'', last_employee = prev,
            via = NothingMatched\<rparr>)"
    unfolding after_name_match_def a_def b_def docs_def ..
  show ?thesis
    unfolding r docs_def [symmetric]
    by (cases a; cases b) (simp_all add: rag_answer_marker rag_answer_None)
qed

lemma returned_answer:
  assumes r: "retrieve_context e today prev question = Inr r"
  shows "(via r = PolicyRag \<longrightarrow>
            returned r = rag_answer (similarity_search e question 2) \<and>
            returned r \<noteq> Some ''RAG::'') \<and>
         (returned r = None \<longleftrightarrow>
            via r = PolicyRag \<and> join [CHR 0x0A] (similarity_search e question 2) = []) \<and>
         (via r = NothingMatched \<longrightarrow> returned r = Some ''Information not available.'')"
proof -
  from retrieve_context_shape_at [of e today prev question]
  consider (raise) err where "retrieve_context e today prev question = Inl err"
    | (early) answer m where "early_matcher m"
        "retrieve_context e today prev question
           = Inr \<lparr>returned = Some answer, last_employee = prev, via = m\<rparr>"
    | (resolve) emp m where "m = EmployeeIdMatch \<or> m = EmployeeNameMatch"
        "retrieve_context e today prev question
           = Inr \<lparr>returned = Some (employee_field_response emp (strip (lower question))),
                  last_employee = Some emp, via = m\<rparr>"
    | (late) "retrieve_context e today prev question
                = Inr (after_name_match e prev question (strip (lower question)))"
    by blast
  then show ?thesis
  proof cases
    case raise
    with r show ?thesis by simp
  next
    case early
    with r have "r = \<lparr>returned = Some answer, last_employee = prev, via = m\<rparr>" by simp
    moreover from early(1) have "m \<noteq> PolicyRag" "m \<noteq> NothingMatched"
      by (auto simp: early_matcher_def)
    ultimately show ?thesis by simp
  next
    case resolve
    with r have "r = \<lparr>returned = Some (employee_field_response emp (strip (lower question))),
                       last_employee = Some emp, via = m\<rparr>" by simp
    moreover from resolve(1) have "m \<noteq> PolicyRag" "m \<noteq> NothingMatched"
      by auto
    ultimately show ?thesis by simp
  next
    case late
    with r have r': "r = after_name_match e prev question (strip (lower question))" by simp
    show ?thesis unfolding r' by (rule late_answer)
  qed
qed



text \<open>
  A superscript digit alone, which \<^verbatim>\<open>isdigit\<close> accepts, makes \<^verbatim>\<open>int\<close> raise in section 7.
\<close>

lemma superscript_digit_raises:
  "\<not> plain_digits [CHR 0xB2] \<and>
   retrieve_context example_env example_now None [CHR 0xB2] = Inl ValueError"
  by (simp add: plain_digits_def eval_defs)

text \<open>
  Claim C1, as stated, fails on the policy path: when a policy word is in the question
  and the search finds no passage, the joined context is empty and the call returns
  \<^verbatim>\<open>None\<close>, which is not the fixed message of the last line.
\<close>

theorem policy_without_context_counterexample:
  "list_ex (\<lambda>word. py_in word (strip (lower ''what is the leave policy?''))) policy_words \<and>
   similarity_search empty_store_env ''what is the leave policy?'' 2 = [] \<and>
   retrieve_context empty_store_env example_now None ''what is the leave policy?''
     = Inr \<lparr>returned = None, last_employee = None, via = PolicyRag\<rparr>"
  by (simp add: empty_store_env_def eval_defs)


text \<open>
  Claim C1, amended. For a question of at most 4300 characters without superscript
  digits, and holiday dates that all parse, the call returns. It returns \<^verbatim>\<open>None\<close>
  exactly when it left through the policy section with an empty joined context; the
  policy section otherwise returns the joined context behind the marker \<^verbatim>\<open>RAG::\<close>,
  never the bare marker; and a call that matched nothing returns the fixed message.
\<close>

theorem router_returns:
  assumes "plain_digits question"
      and "length question \<le> int_max_str_digits"
      and "list_all (\<lambda>h. strptime (date h) \<noteq> Inl ValueError) (holidays e)"
  shows "\<exists>r. retrieve_context e today prev question = Inr r \<and>
           (via r = PolicyRag \<longrightarrow>
              returned r = rag_answer (similarity_search e question 2) \<and>
              returned r \<noteq> Some ''RAG::'') \<and>
           (returned r = None \<longleftrightarrow>
              via r = PolicyRag \<and> join [CHR 0x0A] (similarity_search e question 2) = []) \<and>
           (via r = NothingMatched \<longrightarrow> returned r = Some ''Information not available.'')"
proof -
  from retrieve_context_returns [OF assms, of today prev]
  obtain r where r: "retrieve_context e today prev question = Inr r" ..
  from r returned_answer [OF r] show ?thesis
    by (intro exI [of _ r] conjI) (elim conjE, assumption)+
qed

theorem router_returns_witness:
  "plain_digits ''leave policy?'' \<and>
   length ''leave policy?'' \<le> int_max_str_digits \<and>
   list_all (\<lambda>h. strptime (date h) \<noteq> Inl ValueError) (holidays example_env) \<and>
   retrieve_context example_env example_now None ''leave policy?''
     = Inr \<lparr>returned = Some (''RAG::'' @ ''Employees get 12 casual leaves a year.''),
            last_employee = None, via = PolicyRag\<rparr> \<and>
   list_all (\<lambda>h. strptime (date h) \<noteq> Inl ValueError) (holidays empty_store_env) \<and>
   retrieve_context empty_store_env example_now None ''leave policy?''
     = Inr \<lparr>returned = None, last_employee = None, via = PolicyRag\<rparr> \<and>
   join [CHR 0x0A] (similarity_search empty_store_env ''leave policy?'' 2) = [] \<and>
   plain_digits ''tell me a joke'' \<and>
   length ''tell me a joke'' \<le> int_max_str_digits \<and>
   retrieve_context example_env example_now None ''tell me a joke''
     = Inr \<lparr>returned = Some ''Information not available.'', last_employee = None,
            via = NothingMatched\<rparr>"
proof -
  have h: "plain_digits ''leave policy?''"
    "length ''leave policy?'' \<le> int_max_str_digits"
    "list_all (\<lambda>h. strptime (date h) \<noteq> Inl ValueError) (holidays example_env)"
    "list_all (\<lambda>h. strptime (date h) \<noteq> Inl ValueError) (holidays empty_store_env)"
    "plain_digits ''tell me a joke''"
    "length ''tell me a joke'' \<le> int_max_str_digits"
    by (simp_all add: plain_digits_def empty_store_env_def int_max_str_digits_def eval_defs)
  have a: "retrieve_context example_env example_now None ''leave policy?''
     = Inr \<lparr>returned = Some (''RAG::'' @ ''Employees get 12 casual leaves a year.''),
            last_employee = None, via = PolicyRag\<rparr>"
    by (simp add: eval_defs)
  have b: "retrieve_context empty_store_env example_now None ''leave policy?''
     = Inr \<lparr>returned = None, last_employee = None, via = PolicyRag\<rparr>"
    by (simp add: empty_store_env_def eval_defs)
  have c: "retrieve_context example_env example_now None ''tell me a joke''
     = Inr \<lparr>returned = Some ''Information not available.'', last_employee = None,
            via = NothingMatched\<rparr>"
    by (simp add: eval_defs)
  from router_returns [OF h(1,2,4), of example_now None, unfolded b]
  have d: "join [CHR 0x0A] (similarity_search empty_store_env ''leave policy?'' 2) = []"
    by simp
  from router_returns [OF h(1,2,3), of example_now None, unfolded a]
    router_returns [OF h(5,6,3), of example_now None, unfolded c]
  show ?thesis
    by (simp only: h a b c d simp_thms)
qed

end
